theory Spec2Isabelle
  imports Main "HOL-Library.Sublist"
begin

section \<open>JavaScript string replacement\<close>

text \<open>
  A JavaScript string is a sequence of code units; the model takes \<^typ>\<open>string\<close>, and the
  functions below look at characters only through equality.

  \<open>getSubstitution\<close> is the replacement-template expansion that both
  \<^verbatim>\<open>String.prototype.replace\<close> and \<^verbatim>\<open>String.prototype.replaceAll\<close> perform when the
  replacement is a string: \<^verbatim>\<open>$$\<close> gives a dollar sign, \<^verbatim>\<open>$&\<close> the matched text,
  \<^verbatim>\<open>$`\<close> the text before the match and \<^verbatim>\<open>$'\<close> the text after it. With a string
  pattern there are no capture groups, so every other use of the dollar sign is literal.
\<close>

fun getSubstitution :: "string \<Rightarrow> string \<Rightarrow> string \<Rightarrow> string \<Rightarrow> string" where
  "getSubstitution matched pre post [] = []"
| "getSubstitution matched pre post [c] = [c]"
| "getSubstitution matched pre post (c # d # t) =
     (if c = CHR ''$'' \<and> d = CHR ''$'' then CHR ''$'' # getSubstitution matched pre post t
      else if c = CHR ''$'' \<and> d = CHR ''&'' then matched @ getSubstitution matched pre post t
      else if c = CHR ''$'' \<and> d = CHR 0x60 then pre @ getSubstitution matched pre post t
      else if c = CHR ''$'' \<and> d = CHR 0x27 then post @ getSubstitution matched pre post t
      else c # getSubstitution matched pre post (d # t))"

text \<open>
  \<^verbatim>\<open>s.replace(p, r)\<close> with a string pattern: the leftmost occurrence of \<open>p\<close> is replaced, the
  rest of the text is kept. \<open>pre\<close> is the text already passed over.
\<close>

fun replace_from :: "string \<Rightarrow> string \<Rightarrow> string \<Rightarrow> string \<Rightarrow> string" where
  "replace_from p r pre [] = (if p = [] then getSubstitution p pre [] r else [])"
| "replace_from p r pre (c # s) =
     (if prefix p (c # s)
      then getSubstitution p pre (drop (length p) (c # s)) r @ drop (length p) (c # s)
      else c # replace_from p r (pre @ [c]) s)"

definition replace :: "string \<Rightarrow> string \<Rightarrow> string \<Rightarrow> string" where
  "replace p r s = replace_from p r [] s"

text \<open>
  \<^verbatim>\<open>s.replaceAll(p, r)\<close> with a string pattern: the occurrences of \<open>p\<close> are found from left
  to right, each search starting behind the previous match, and every one is replaced. An
  empty pattern matches before every code unit and at the end.
\<close>

fun replaceAll_from :: "string \<Rightarrow> string \<Rightarrow> string \<Rightarrow> string \<Rightarrow> string" where
  "replaceAll_from p r pre [] = []"
| "replaceAll_from p r pre (c # s) =
     (if p \<noteq> [] \<and> prefix p (c # s)
      then getSubstitution p pre (drop (length p) (c # s)) r
           @ replaceAll_from p r (pre @ p) (drop (length p) (c # s))
      else c # replaceAll_from p r (pre @ [c]) s)"

fun replaceAll_empty :: "string \<Rightarrow> string \<Rightarrow> string \<Rightarrow> string" where
  "replaceAll_empty r pre [] = getSubstitution [] pre [] r"
| "replaceAll_empty r pre (c # s) =
     getSubstitution [] pre (c # s) r @ c # replaceAll_empty r (pre @ [c]) s"

definition replaceAll :: "string \<Rightarrow> string \<Rightarrow> string \<Rightarrow> string" where
  "replaceAll p r s = (if p = [] then replaceAll_empty r [] s else replaceAll_from p r [] s)"

section \<open>The import rewriter\<close>

text \<open>\<^verbatim>\<open>fixImports\<close> of \<^verbatim>\<open>commands/add.ts\<close>: three \<^verbatim>\<open>replace\<close> calls, then three
  \<^verbatim>\<open>replaceAll\<close> calls, in this order.\<close>

definition fixImports :: "string \<Rightarrow> string \<Rightarrow> string \<Rightarrow> string" where
  "fixImports rawfile componentsAlias libAlias =
     replaceAll ''@rnr'' (componentsAlias @ ''/primitives'')
       (replaceAll ''../../lib'' libAlias
         (replaceAll ''../../components'' componentsAlias
           (replace ''./text'' (componentsAlias @ ''/ui/text'')
             (replace ''./typography'' (componentsAlias @ ''/ui/typography'')
               (replace ''../Icons'' (componentsAlias @ ''/Icons'') rawfile)))))"

text \<open>The six pairs of search string and replacement, in the order of the calls.\<close>

definition rewrite_rules :: "string \<Rightarrow> string \<Rightarrow> (string \<times> string) list" where
  "rewrite_rules componentsAlias libAlias =
     [(''../Icons'', componentsAlias @ ''/Icons''),
      (''./typography'', componentsAlias @ ''/ui/typography''),
      (''./text'', componentsAlias @ ''/ui/text''),
      (''../../components'', componentsAlias),
      (''../../lib'', libAlias),
      (''@rnr'', componentsAlias @ ''/primitives'')]"

text \<open>The search strings of the three \<^verbatim>\<open>replace\<close> calls and of the three
  \<^verbatim>\<open>replaceAll\<close> calls.\<close>

definition single_patterns :: "string list" where
  "single_patterns = [''../Icons'', ''./typography'', ''./text'']"

definition global_patterns :: "string list" where
  "global_patterns = [''../../components'', ''../../lib'', ''@rnr'']"

subsection \<open>Vocabulary for statements about occurrences\<close>


text \<open>\<open>no_start_in x q\<close>: in no text \<open>x @ v\<close> does an occurrence of \<open>q\<close> start inside \<open>x\<close>.\<close>

definition no_start_in :: "string \<Rightarrow> string \<Rightarrow> bool" where
  "no_start_in x q =
     list_all (\<lambda>y. y = [] \<or> (\<not> prefix y q \<and> \<not> prefix q y)) (suffixes x)"

text \<open>\<open>inert q r\<close>: the text \<open>r\<close> is not empty and no occurrence of \<open>q\<close> can overlap it,
  wherever \<open>r\<close> is put: no non-empty suffix of \<open>r\<close> is a prefix of \<open>q\<close> or begins with
  \<open>q\<close> (no occurrence starts inside \<open>r\<close>), and no non-empty proper suffix of \<open>q\<close> is a
  prefix of \<open>r\<close> or begins with \<open>r\<close> (no occurrence that starts before \<open>r\<close> runs into it).\<close>

definition inert :: "string \<Rightarrow> string \<Rightarrow> bool" where
  "inert q r = (r \<noteq> [] \<and> no_start_in r q \<and> no_start_in (tl q) r)"

text \<open>The aliases for which the three \<^verbatim>\<open>replaceAll\<close> steps insert their replacement
  verbatim (no dollar sign), and for which no occurrence of a pattern can overlap a
  replacement that is inserted at the step of that pattern or at a later step.\<close>

definition plain_aliases :: "string \<Rightarrow> string \<Rightarrow> bool" where
  "plain_aliases componentsAlias libAlias =
     (CHR ''$'' \<notin> set componentsAlias \<and> CHR ''$'' \<notin> set libAlias \<and>
      inert ''../../components'' componentsAlias \<and>
      inert ''../../components'' libAlias \<and>
      inert ''../../components'' (componentsAlias @ ''/primitives'') \<and>
      inert ''../../lib'' libAlias \<and>
      inert ''../../lib'' (componentsAlias @ ''/primitives'') \<and>
      inert ''@rnr'' (componentsAlias @ ''/primitives''))"

section \<open>Paths and the file system\<close>

text \<open>
  An absolute, normalised path is the list of its segments; the root is the empty list.
  \<^verbatim>\<open>path.join\<close> and \<^verbatim>\<open>path.resolve\<close> of Node concatenate their arguments with a
  separator and normalise the result: empty segments and \<^verbatim>\<open>.\<close> are dropped, \<^verbatim>\<open>..\<close> removes the
  segment before it and is dropped at the root. \<^verbatim>\<open>path.join\<close> keeps a trailing separator
  of the joined text (\<^verbatim>\<open>path.resolve\<close> does not), and a path with a trailing separator names a
  directory only: a path reference is the list of segments together with that mark.
\<close>

type_synonym path = "string list"

type_synonym pathref = "path \<times> bool"

fun splitSlash :: "string \<Rightarrow> string list" where
  "splitSlash [] = [[]]"
| "splitSlash (c # s) =
     (if c = CHR ''/'' then [] # splitSlash s
      else (case splitSlash s of [] \<Rightarrow> [[c]] | seg # segs \<Rightarrow> (c # seg) # segs))"

definition applySegment :: "path \<Rightarrow> string \<Rightarrow> path" where
  "applySegment p seg =
     (if seg = [] \<or> seg = ''.'' then p else if seg = ''..'' then butlast p else p @ [seg])"

definition trailing_separator :: "string \<Rightarrow> bool" where
  "trailing_separator s = (s \<noteq> [] \<and> last s = CHR ''/'')"

text \<open>\<^verbatim>\<open>path.join(base, rel)\<close> for an absolute normalised \<open>base\<close>. An empty argument is
  skipped, so the joined text ends as \<open>rel\<close> does, or as \<open>base\<close> does when \<open>rel\<close> is empty;
  the root is written with its one separator.\<close>

definition path_join :: "pathref \<Rightarrow> string \<Rightarrow> pathref" where
  "path_join base rel =
     (let segs = foldl applySegment (fst base) (splitSlash rel) in
      (segs, segs \<noteq> [] \<and> (if rel = [] then snd base else trailing_separator rel)))"

text \<open>\<^verbatim>\<open>path.resolve(s)\<close>, which resolves a relative \<open>s\<close> against the working directory of
  the process.\<close>

definition path_resolve :: "path \<Rightarrow> string \<Rightarrow> path" where
  "path_resolve cwd s =
     (if s \<noteq> [] \<and> hd s = CHR ''/'' then foldl applySegment [] (splitSlash s)
      else foldl applySegment cwd (splitSlash s))"

datatype node = File string | Dir

type_synonym filesystem = "path \<Rightarrow> node option"

datatype io_op = MkdirOp path | ReadOp path | WriteOp path

text \<open>The values that are thrown. \<open>UnknownComponentError\<close> is the \<^verbatim>\<open>Error\<close> whose message is
  \<^verbatim>\<open>INVALID_COMPONENT_ERROR\<close>; the names it lists follow the specification of the resolver.\<close>

datatype error = UnknownComponentError "string list" | OtherError string | IOError io_op

text \<open>
  What the program is run with and does not define itself: the working directory of the
  process, the operations that fail for a reason outside the file tree (permissions, a full
  disk), and \<^verbatim>\<open>handleError\<close> of \<^verbatim>\<open>utils/handle-error\<close>, whose body is not among the
  sources: \<open>Some n\<close> when it ends the process with exit code \<open>n\<close>, \<open>None\<close> when it
  returns.
\<close>

record env =
  procCwd :: path
  faults :: "io_op \<Rightarrow> bool"
  handleError :: "error \<Rightarrow> nat option"

text \<open>\<^verbatim>\<open>existsSync\<close>: with a trailing separator a regular file is not found.\<close>

definition existsSync :: "filesystem \<Rightarrow> pathref \<Rightarrow> bool" where
  "existsSync files ref =
     (fst ref = [] \<or>
      (case files (fst ref) of
         None \<Rightarrow> False
       | Some Dir \<Rightarrow> True
       | Some (File c) \<Rightarrow> \<not> snd ref))"

definition is_file :: "filesystem \<Rightarrow> path \<Rightarrow> bool" where
  "is_file files p = (case files p of Some (File c) \<Rightarrow> True | _ \<Rightarrow> False)"

text \<open>\<^verbatim>\<open>fs.mkdir(p, { recursive: true })\<close>: creates \<open>p\<close> and its missing ancestors; fails when
  one of them is a regular file.\<close>

definition mkdir :: "env \<Rightarrow> filesystem \<Rightarrow> pathref \<Rightarrow> error + filesystem" where
  "mkdir e files ref =
     (let p = fst ref in
      if faults e (MkdirOp p) \<or> list_ex (is_file files) (prefixes p)
      then Inl (IOError (MkdirOp p))
      else Inr (\<lambda>q. if q \<noteq> [] \<and> prefix q p \<and> files q = None then Some Dir else files q))"

definition readFile :: "env \<Rightarrow> filesystem \<Rightarrow> path \<Rightarrow> error + string" where
  "readFile e files p =
     (if faults e (ReadOp p) then Inl (IOError (ReadOp p))
      else (case files p of Some (File c) \<Rightarrow> Inr c | _ \<Rightarrow> Inl (IOError (ReadOp p))))"

text \<open>\<^verbatim>\<open>fs.writeFile(p, data)\<close>: creates the file or replaces its content; fails on a
  directory, on a path with a trailing separator, and when the parent directory is
  missing.\<close>

definition writeFile :: "env \<Rightarrow> filesystem \<Rightarrow> pathref \<Rightarrow> string \<Rightarrow> error + filesystem" where
  "writeFile e files ref data =
     (let p = fst ref in
      if faults e (WriteOp p) \<or> snd ref \<or> p = [] \<or> files p = Some Dir
         \<or> (butlast p \<noteq> [] \<and> files (butlast p) \<noteq> Some Dir)
      then Inl (IOError (WriteOp p))
      else Inr (files(p \<mapsto> File data)))"

section \<open>The data of the add command\<close>

text \<open>
  Modelled from the spec: the types \<^verbatim>\<open>Component\<close> (module \<^verbatim>\<open>../items\<close>) and \<^verbatim>\<open>Config\<close>
  (module \<^verbatim>\<open>utils/get-config\<close>) are declared outside the sources at hand. A file entry is
  \<^verbatim>\<open>{ from, to: { folder, file } }\<close>; the paths of a component are a flat list of entries or one
  list per platform mode; \<^verbatim>\<open>resolvedPaths.components\<close> is an absolute path, without a
  trailing separator.
\<close>

record file_entry =
  entry_from :: string
  to_folder :: string
  to_file :: string

datatype platform_mode = Universal | NativeOnly

datatype component_paths = Flat "file_entry list" | PerPlatform "file_entry list" "file_entry list"

record Component =
  name :: string
  comp_type :: string
  paths :: component_paths
  dependencies :: "string list"
  npmPackages_universal :: "string list"
  npmPackages_native :: "string list"

record Config =
  platforms :: platform_mode
  aliases_components :: string
  aliases_lib :: string
  resolvedPaths_components :: path

text \<open>The parsed options of the command (\<^verbatim>\<open>addOptionsSchema\<close>); \<^verbatim>\<open>cwd\<close> and \<^verbatim>\<open>path\<close> are not
  read after the configuration has been loaded.\<close>

record options =
  components :: "string list option"
  overwrite :: bool

text \<open>What the operator sees, in order.\<close>

datatype event =
    LoggerError string
  | LoggerErrorValue error
  | LoggerInfo string
  | LoggerWarn string
  | ConsoleLog string "string list"
  | Prompt string
  | SpinnerStart string
  | SpinnerStop
  | SpinnerText string
  | SpinnerSucceed string
  | HandleError error

text \<open>The state a run works on: the file tree, the answers the operator will give to the
  confirmation prompts, and what has been shown so far.\<close>

record world =
  fs :: filesystem
  answers :: "bool list"
  trace :: "event list"

datatype outcome = Returned | Exited nat | Threw error

definition exit_code :: "outcome \<Rightarrow> nat option" where
  "exit_code out = (case out of Returned \<Rightarrow> Some 0 | Exited n \<Rightarrow> Some n | Threw err \<Rightarrow> None)"

definition emit :: "event \<Rightarrow> world \<Rightarrow> world" where
  "emit ev w = w\<lparr>trace := trace w @ [ev]\<rparr>"

text \<open>\<^verbatim>\<open>Array.prototype.join\<close>.\<close>

fun join :: "string \<Rightarrow> string list \<Rightarrow> string" where
  "join sep [] = []"
| "join sep [x] = x"
| "join sep (x # y # zs) = x @ sep @ join sep (y # zs)"

text \<open>A \<^verbatim>\<open>confirm\<close> prompt: the next answer of the operator; no answer (the prompt is
  aborted) leaves the field undefined, which the caller reads as false.\<close>

definition prompts_confirm :: "string \<Rightarrow> world \<Rightarrow> bool \<times> world" where
  "prompts_confirm message w =
     (case answers w of
        [] \<Rightarrow> (False, emit (Prompt message) w)
      | a # rest \<Rightarrow> (a, emit (Prompt message) (w\<lparr>answers := rest\<rparr>)))"

section \<open>The file installer\<close>

definition target_dir :: "Config \<Rightarrow> file_entry \<Rightarrow> pathref" where
  "target_dir config compPath =
     path_join (resolvedPaths_components config, False) (to_folder compPath)"

definition destination :: "Config \<Rightarrow> file_entry \<Rightarrow> pathref" where
  "destination config compPath = path_join (target_dir config compPath) (to_file compPath)"

text \<open>Lines 182 to 184: the target directory is created when it does not exist.\<close>

definition ensureDir :: "env \<Rightarrow> filesystem \<Rightarrow> pathref \<Rightarrow> error + filesystem" where
  "ensureDir e files targetDir =
     (if existsSync files targetDir then Inr files else mkdir e files targetDir)"

text \<open>The \<^verbatim>\<open>catch\<close> blocks hand the error to \<^verbatim>\<open>handleError\<close>.\<close>

definition handled :: "env \<Rightarrow> error \<Rightarrow> world \<Rightarrow> outcome \<times> world" where
  "handled e err w =
     (case handleError e err of
        Some n \<Rightarrow> (Exited n, emit (HandleError err) w)
      | None \<Rightarrow> (Returned, emit (HandleError err) w))"

text \<open>Lines 205 to 214: the source is read, rewritten and written to the destination.\<close>

definition installEntry ::
  "env \<Rightarrow> Component \<Rightarrow> file_entry \<Rightarrow> Config \<Rightarrow> world \<Rightarrow> outcome \<times> world" where
  "installEntry e component compPath config w =
     (let w1 = emit (SpinnerStart (''Installing '' @ name component @ ''...'')) w in
      case readFile e (fs w1) (path_resolve (procCwd e) (entry_from compPath)) of
        Inl err \<Rightarrow> handled e err w1
      | Inr content \<Rightarrow>
          (case writeFile e (fs w1) (destination config compPath)
                  (fixImports content (aliases_components config) (aliases_lib config)) of
             Inl err \<Rightarrow> handled e err w1
           | Inr files \<Rightarrow> (Returned, w1\<lparr>fs := files\<rparr>)))"

text \<open>The body of the loop of \<^verbatim>\<open>writeFiles\<close>; \<^verbatim>\<open>continue\<close> is the outcome \<open>Returned\<close>.
  An error of \<^verbatim>\<open>fs.mkdir\<close> is thrown out of \<^verbatim>\<open>writeFiles\<close>: the call stands before the
  \<^verbatim>\<open>try\<close> block. The colour that \<^verbatim>\<open>chalk.green\<close> gives to the flag in the message is left
  out.\<close>

definition writeEntry ::
  "env \<Rightarrow> Component \<Rightarrow> file_entry \<Rightarrow> Config \<Rightarrow> options \<Rightarrow> world \<Rightarrow> outcome \<times> world" where
  "writeEntry e component compPath config opts w =
     (case ensureDir e (fs w) (target_dir config compPath) of
        Inl err \<Rightarrow> (Threw err, w)
      | Inr files \<Rightarrow>
          (let w1 = w\<lparr>fs := files\<rparr> in
           if \<not> overwrite opts \<and> existsSync files (destination config compPath) then
             (case prompts_confirm
                     (''File '' @ join ''/'' [to_folder compPath, to_file compPath]
                        @ '' already exists. Would you like to overwrite?'')
                     (emit SpinnerStop w1) of
                (answer, w2) \<Rightarrow>
                  if \<not> answer then
                    (Returned,
                     emit (LoggerInfo (''Skipped '' @ name component
                        @ ''. To overwrite, run with the --overwrite flag.'')) w2)
                  else installEntry e component compPath config w2)
           else installEntry e component compPath config w1))"

fun writeFiles ::
  "env \<Rightarrow> Component \<Rightarrow> file_entry list \<Rightarrow> Config \<Rightarrow> options \<Rightarrow> world \<Rightarrow> outcome \<times> world" where
  "writeFiles e component [] config opts w = (Returned, w)"
| "writeFiles e component (compPath # rest) config opts w =
     (case writeEntry e component compPath config opts w of
        (Returned, w') \<Rightarrow> writeFiles e component rest config opts w'
      | (out, w') \<Rightarrow> (out, w'))"

section \<open>The action of the add command\<close>

text \<open>Lines 109 to 161: the components are installed one after the other.\<close>

definition selected_paths :: "Config \<Rightarrow> Component \<Rightarrow> file_entry list" where
  "selected_paths config component =
     (case paths component of
        Flat entries \<Rightarrow> entries
      | PerPlatform universal native \<Rightarrow>
          if platforms config = Universal then universal else native)"

fun installComponents ::
  "env \<Rightarrow> Config \<Rightarrow> options \<Rightarrow> Component list \<Rightarrow> world \<Rightarrow> outcome \<times> world" where
  "installComponents e config opts [] w = (Returned, w)"
| "installComponents e config opts (component # rest) w =
     (case writeFiles e component (selected_paths config component) config opts
             (emit (SpinnerText (''Installing '' @ name component @ ''...'')) w) of
        (Returned, w') \<Rightarrow>
          installComponents e config opts rest
            (emit (ConsoleLog ''NPM PACKAGES''
               (if platforms config = Universal then npmPackages_universal component
                else npmPackages_native component)) w')
      | (out, w') \<Rightarrow> (out, w'))"

text \<open>
  The action from line 70 on, with the configuration in hand (lines 52 to 68 parse the
  options, check the working directory and load or ask for the configuration).
  \<open>COMPONENTS\<close> is the catalog and \<open>getAll\<close> is \<^verbatim>\<open>getAllComponentsToWrite\<close>, both of module
  \<^verbatim>\<open>../items\<close>; \<open>selection\<close> is the operator's answer to the multiselect prompt, \<open>None\<close> when
  the prompt is aborted.
\<close>

definition add_action ::
  "env \<Rightarrow> Component list \<Rightarrow> (string list \<Rightarrow> error + Component list) \<Rightarrow> string list option
     \<Rightarrow> Config \<Rightarrow> options \<Rightarrow> world \<Rightarrow> outcome \<times> world" where
  "add_action e COMPONENTS getAll selection config opts w =
     (let given = (case components opts of None \<Rightarrow> [] | Some cs \<Rightarrow> cs);
          asked = (given = []);
          selectedComponents =
            (if asked then (case selection of None \<Rightarrow> [] | Some cs \<Rightarrow> cs) else given);
          w1 = (if asked then emit (Prompt ''Which components would you like to add?'') w else w)
      in
      if selectedComponents = [] then
        (Exited 0, emit (LoggerWarn ''No components selected. Exiting.'') w1)
      else
        (let w2 = emit (SpinnerStart ''Installing components...'') w1 in
         case (case getAll selectedComponents of
                 Inl (UnknownComponentError names) \<Rightarrow>
                   Inl (emit (LoggerError (''Invalid component(s): '' @ join '', ''
                          (filter (\<lambda>component.
                              find (\<lambda>entry. name entry = component) COMPONENTS = None)
                            selectedComponents))) w2)
               | Inl err \<Rightarrow> Inr ([], emit (LoggerErrorValue err) w2)
               | Inr cs \<Rightarrow> Inr (cs, w2)) of
           Inl w3 \<Rightarrow> (Exited 1, w3)
         | Inr (componentsToWrite, w3) \<Rightarrow>
             (case installComponents e config opts componentsToWrite w3 of
                (Returned, w4) \<Rightarrow> (Returned, emit (SpinnerSucceed ''Done.'') w4)
              | (Threw err, w4) \<Rightarrow> handled e err w4
              | (Exited n, w4) \<Rightarrow> (Exited n, w4))))"

section \<open>The dependency resolver\<close>

text \<open>
  Modelled from the spec: \<^verbatim>\<open>getAllComponentsToWrite\<close> of module \<^verbatim>\<open>../items\<close> is not part of
  the sources at hand. Following section 4.1 of the specification: every requested name is
  looked up in the catalog, and all unknown names are reported together; then each requested
  component is included, followed by its declared dependencies, recursively; a component
  already included is not visited again; a dependency that the catalog does not have is a
  resolution error.
\<close>

definition find_component :: "Component list \<Rightarrow> string \<Rightarrow> Component option" where
  "find_component catalog n = find (\<lambda>entry. name entry = n) catalog"

function resolve_loop ::
  "Component list \<Rightarrow> Component list \<Rightarrow> string list \<Rightarrow> error + Component list" where
  "resolve_loop catalog acc [] = Inr acc"
| "resolve_loop catalog acc (n # todo) =
     (if n \<in> set (map name acc) then resolve_loop catalog acc todo
      else (case find_component catalog n of
              None \<Rightarrow> Inl (UnknownComponentError [n])
            | Some c \<Rightarrow> resolve_loop catalog (acc @ [c]) (dependencies c @ todo)))"
  by pat_completeness auto

termination resolve_loop
proof (relation "measures [\<lambda>(catalog, acc, todo). card (set (map name catalog) - set (map name acc)),
                            \<lambda>(catalog, acc, todo). length todo]")
  show "wf (measures [\<lambda>(catalog, acc, todo). card (set (map name catalog) - set (map name acc)),
                      \<lambda>(catalog, acc, todo). length todo])"
    by simp
next
  fix catalog acc :: "Component list" and n :: string and todo :: "string list"
  assume "n \<in> set (map name acc)"
  then show "((catalog, acc, todo), (catalog, acc, n # todo))
     \<in> measures [\<lambda>(catalog, acc, todo). card (set (map name catalog) - set (map name acc)),
                  \<lambda>(catalog, acc, todo). length todo]"
    by simp
next
  fix catalog acc :: "Component list" and n :: string and todo :: "string list" and c
  assume fresh: "n \<notin> set (map name acc)" and found: "find_component catalog n = Some c"
  from found have "find (\<lambda>entry. name entry = n) catalog = Some c"
    by (simp add: find_component_def)
  then have nm: "name c = n" and mem: "c \<in> set catalog"
    by (auto simp: find_Some_iff)
  have "set (map name catalog) - set (map name (acc @ [c]))
          \<subset> set (map name catalog) - set (map name acc)"
    using fresh nm mem by auto
  then have "card (set (map name catalog) - set (map name (acc @ [c])))
          < card (set (map name catalog) - set (map name acc))"
    by (intro psubset_card_mono) auto
  then show "((catalog, acc @ [c], dependencies c @ todo), (catalog, acc, n # todo))
     \<in> measures [\<lambda>(catalog, acc, todo). card (set (map name catalog) - set (map name acc)),
                  \<lambda>(catalog, acc, todo). length todo]"
    by simp
qed

definition getAllComponentsToWrite :: "Component list \<Rightarrow> string list \<Rightarrow> error + Component list" where
  "getAllComponentsToWrite catalog requested =
     (let invalid = filter (\<lambda>n. find_component catalog n = None) requested in
      if invalid \<noteq> [] then Inl (UnknownComponentError invalid)
      else resolve_loop catalog [] requested)"

section \<open>Vocabulary and sample data for the statements\<close>

text \<open>The two messages of the overwrite conflict, as \<^verbatim>\<open>writeFiles\<close> builds them.\<close>

definition skip_message :: "Component \<Rightarrow> string" where
  "skip_message component =
     ''Skipped '' @ name component @ ''. To overwrite, run with the --overwrite flag.''"

definition overwrite_question :: "file_entry \<Rightarrow> string" where
  "overwrite_question compPath =
     ''File '' @ join ''/'' [to_folder compPath, to_file compPath]
       @ '' already exists. Would you like to overwrite?''"

text \<open>A relative path without a \<^verbatim>\<open>..\<close> segment.\<close>

definition no_parent_segment :: "string \<Rightarrow> bool" where
  "no_parent_segment s = (''..'' \<notin> set (splitSlash s))"

text \<open>A small catalog, a configuration and a file tree on which the statements are run.\<close>

definition sample_icons :: Component where
  "sample_icons = \<lparr>name = ''icons'', comp_type = ''lib'',
     paths = Flat [\<lparr>entry_from = ''src/Icons.tsx'', to_folder = '''', to_file = ''Icons.tsx''\<rparr>],
     dependencies = [], npmPackages_universal = [], npmPackages_native = []\<rparr>"

definition sample_dialog :: Component where
  "sample_dialog = \<lparr>name = ''dialog'', comp_type = ''ui'',
     paths = Flat [\<lparr>entry_from = ''src/dialog.tsx'', to_folder = ''ui'', to_file = ''dialog.tsx''\<rparr>],
     dependencies = [''icons''], npmPackages_universal = [], npmPackages_native = []\<rparr>"

definition sample_catalog :: "Component list" where
  "sample_catalog = [sample_icons, sample_dialog]"

definition sample_env :: env where
  "sample_env = \<lparr>procCwd = [''repo''], faults = (\<lambda>op. False), handleError = (\<lambda>err. Some 1)\<rparr>"

definition sample_config :: Config where
  "sample_config = \<lparr>platforms = Universal, aliases_components = ''~/components'',
     aliases_lib = ''~/lib'', resolvedPaths_components = [''proj'', ''components'']\<rparr>"

definition sample_files :: filesystem where
  "sample_files =
     [[''repo''] \<mapsto> Dir,
      [''repo'', ''src''] \<mapsto> Dir,
      [''repo'', ''src'', ''dialog.tsx''] \<mapsto> File ''import { X } from '../Icons';'',
      [''proj''] \<mapsto> Dir,
      [''proj'', ''components''] \<mapsto> Dir,
      [''proj'', ''components'', ''ui''] \<mapsto> Dir,
      [''proj'', ''components'', ''ui'', ''dialog.tsx''] \<mapsto> File ''old'']"

definition sample_entry :: file_entry where
  "sample_entry = \<lparr>entry_from = ''src/dialog.tsx'', to_folder = ''ui'', to_file = ''dialog.tsx''\<rparr>"

definition escaping_entry :: file_entry where
  "escaping_entry = \<lparr>entry_from = ''src/dialog.tsx'', to_folder = ''..'', to_file = ''x.tsx''\<rparr>"

definition missing_entry :: file_entry where
  "missing_entry = \<lparr>entry_from = ''src/missing.tsx'', to_folder = ''ui'', to_file = ''new.tsx''\<rparr>"

definition slash_entry :: file_entry where
  "slash_entry = \<lparr>entry_from = ''src/dialog.tsx'', to_folder = ''ui'', to_file = ''dialog.tsx/''\<rparr>"

definition sample_world :: "bool list \<Rightarrow> world" where
  "sample_world as = \<lparr>fs = sample_files, answers = as, trace = []\<rparr>"

section \<open>Facts about the replacement methods\<close>


lemma replace_from_absent: "\<not> sublist p s \<Longrightarrow> replace_from p r pre s = s"
proof (induction s arbitrary: pre)
  case Nil
  then show ?case by auto
next
  case (Cons c s)
  then show ?case by (auto simp: sublist_Cons_right)
qed

lemma replaceAll_from_absent: "\<not> sublist p s \<Longrightarrow> replaceAll_from p r pre s = s"
proof (induction s arbitrary: pre)
  case Nil
  then show ?case by simp
next
  case (Cons c s)
  then show ?case by (auto simp: sublist_Cons_right)
qed

lemma replace_absent: "\<not> sublist p s \<Longrightarrow> replace p r s = s"
  by (simp add: replace_def replace_from_absent)

lemma replaceAll_absent: "\<not> sublist p s \<Longrightarrow> replaceAll p r s = s"
  by (auto simp: replaceAll_def replaceAll_from_absent)








section \<open>The import rewriter: occurrences left in the result\<close>

text \<open>The test \<open>inert q r\<close> is exact: it holds if and only if \<open>r\<close> is not empty and, in
  every text \<open>x @ r @ v\<close>, no occurrence of \<open>q\<close> shares a position with \<open>r\<close>.\<close>

lemma no_start_in_iff:
  "no_start_in x q \<longleftrightarrow> (\<forall>y. suffix y x \<longrightarrow> y \<noteq> [] \<longrightarrow> \<not> prefix y q \<and> \<not> prefix q y)"
  unfolding no_start_in_def list_all_iff by (auto simp: in_set_suffixes)

lemma inert_no_overlap:
  assumes i: "inert q r"
    and lo: "i < length x + length r" and hi: "length x < i + length q"
  shows "\<not> prefix q (drop i (x @ r @ v))"
proof
  assume p: "prefix q (drop i (x @ r @ v))"
  from i have a: "\<And>y. suffix y r \<Longrightarrow> y \<noteq> [] \<Longrightarrow> \<not> prefix y q \<and> \<not> prefix q y"
    and b: "\<And>y. suffix y (tl q) \<Longrightarrow> y \<noteq> [] \<Longrightarrow> \<not> prefix y r \<and> \<not> prefix r y"
    unfolding inert_def no_start_in_iff by blast+
  show False
  proof (cases "length x \<le> i")
    case True
    define y where "y = drop (i - length x) r"
    have y: "suffix y r" "y \<noteq> []" using lo True by (simp_all add: y_def suffix_drop)
    from True lo have "drop i (x @ r @ v) = y @ v" by (simp add: y_def)
    with p have "prefix q (y @ v)" by simp
    then have "prefix q y \<or> prefix y q" by (auto simp: prefix_append)
    with a[OF y] show False by blast
  next
    case False
    define a' where "a' = drop i x"
    have la: "a' \<noteq> []" "length a' < length q" using False hi by (simp_all add: a'_def)
    from False have "drop i (x @ r @ v) = a' @ r @ v" by (simp add: a'_def)
    with p have "prefix q (a' @ r @ v)" by simp
    then have "prefix q a' \<or> (\<exists>us. q = a' @ us \<and> prefix us (r @ v))"
      by (simp add: prefix_append)
    moreover have "\<not> prefix q a'" using la(2) by (auto dest: prefix_length_le)
    ultimately obtain us where us: "q = a' @ us" "prefix us (r @ v)" by blast
    from us(1) la have n: "us \<noteq> []" by auto
    from us(1) la(1) have "suffix us (tl q)" by (cases a') (auto simp: suffix_def)
    from b[OF this n] have "\<not> prefix us r" "\<not> prefix r us" by simp_all
    moreover from us(2) have "prefix us r \<or> prefix r us" by (auto simp: prefix_append)
    ultimately show False by blast
  qed
qed

lemma overlap_if_not_inert:
  assumes q: "q \<noteq> []" and r: "r \<noteq> []" and n: "\<not> inert q r"
  shows "\<exists>x v i. i < length x + length r \<and> length x < i + length q
           \<and> prefix q (drop i (x @ r @ v))"
proof -
  from n r consider y where "suffix y r" "y \<noteq> []" "prefix y q \<or> prefix q y"
    | y where "suffix y (tl q)" "y \<noteq> []" "prefix y r \<or> prefix r y"
    unfolding inert_def no_start_in_iff by blast
  then show ?thesis
  proof cases
    case 1
    from 1(1) obtain a where a: "r = a @ y" by (auto simp: suffix_def)
    from 1(3) obtain z where "prefix q (y @ z)" by (auto simp: prefix_def)
    then have "prefix q (drop (length a) ([] @ r @ z))" by (simp add: a)
    moreover have "length a < length ([]::string) + length r" using 1(2) a by simp
    moreover have "length ([]::string) < length a + length q" using q by simp
    ultimately show ?thesis by blast
  next
    case 2
    from 2(1) obtain a where "tl q = a @ y" by (auto simp: suffix_def)
    with q have a: "q = (hd q # a) @ y" by (cases q) simp_all
    from 2(3) obtain z where "prefix y (r @ z)" by (auto simp: prefix_def)
    then have "prefix q (drop 0 ((hd q # a) @ r @ z))" by (subst a) simp
    moreover have "0 < length (hd q # a) + length r" by simp
    moreover have "length (hd q # a) < 0 + length q" using 2(2) by (subst (2) a) simp
    ultimately show ?thesis by blast
  qed
qed

lemma inert_iff_no_overlap:
  assumes "q \<noteq> []"
  shows "inert q r \<longleftrightarrow>
     r \<noteq> [] \<and> (\<forall>x v i. i < length x + length r \<longrightarrow> length x < i + length q
                 \<longrightarrow> \<not> prefix q (drop i (x @ r @ v)))"
proof
  assume i: "inert q r"
  then have "r \<noteq> []" by (simp add: inert_def)
  with i show "r \<noteq> [] \<and> (\<forall>x v i. i < length x + length r \<longrightarrow> length x < i + length q
                 \<longrightarrow> \<not> prefix q (drop i (x @ r @ v)))"
    using inert_no_overlap by blast
next
  assume h: "r \<noteq> [] \<and> (\<forall>x v i. i < length x + length r \<longrightarrow> length x < i + length q
                 \<longrightarrow> \<not> prefix q (drop i (x @ r @ v)))"
  show "inert q r"
  proof (rule ccontr)
    assume "\<not> inert q r"
    from overlap_if_not_inert[OF assms _ this] h show False by blast
  qed
qed



text \<open>The condition on the aliases is needed: an alias that is itself a pattern comes back,
  while the usual aliases are plain.\<close>

lemma fixImports_alias_brings_pattern_back:
  "sublist ''@rnr'' (fixImports ''from @rnr/slot'' ''@rnr'' ''~/lib'')"
  by code_simp

lemma plain_aliases_at_sign: "plain_aliases ''@/components'' ''@/lib''"
  by code_simp

text \<open>An alias with a segment of a pattern in it is plain as long as no occurrence of
  the pattern can overlap it; an alias that an occurrence can overlap, or an empty one, lets the
  pattern come back.\<close>

lemma plain_aliases_packages: "plain_aliases ''packages/ui'' ''~/lib''"
  by code_simp

lemma not_plain_aliases_src: "\<not> plain_aliases ''src/components'' ''~/lib''"
  by code_simp

lemma fixImports_overlapping_alias:
  "sublist ''../../components''
     (fixImports ''../../component../../components'' ''src/components'' ''~/lib'')"
  by code_simp

lemma fixImports_empty_alias:
  "sublist ''../../lib'' (fixImports ''../../l../../libib'' ''~/components'' '''')"
  by code_simp


text \<open>
  Claim C7. When the output of \<^verbatim>\<open>fixImports\<close> contains none of its six patterns, applying
  \<^verbatim>\<open>fixImports\<close> to it again with the same aliases returns it unchanged.
\<close>

theorem fixImports_idempotent:
  assumes "\<forall>p \<in> set (single_patterns @ global_patterns). \<not> sublist p (fixImports x a b)"
  shows "fixImports (fixImports x a b) a b = fixImports x a b"
proof -
  define y where "y = fixImports x a b"
  from assms have "\<not> sublist ''../Icons'' y" "\<not> sublist ''./typography'' y"
    "\<not> sublist ''./text'' y" "\<not> sublist ''../../components'' y"
    "\<not> sublist ''../../lib'' y" "\<not> sublist ''@rnr'' y"
    by (simp_all add: single_patterns_def global_patterns_def y_def)
  then have "fixImports y a b = y"
    by (simp add: fixImports_def replace_absent replaceAll_absent)
  then show ?thesis by (simp add: y_def)
qed

theorem fixImports_idempotent_witness:
  "list_all (\<lambda>p. \<not> sublist p
      (fixImports ''import { X } from '../Icons'; import { cn } from '../../lib/utils';''
         ''~/components'' ''~/lib''))
     (single_patterns @ global_patterns)
   \<and> fixImports
        (fixImports ''import { X } from '../Icons'; import { cn } from '../../lib/utils';''
           ''~/components'' ''~/lib'')
        ''~/components'' ''~/lib''
     = fixImports ''import { X } from '../Icons'; import { cn } from '../../lib/utils';''
         ''~/components'' ''~/lib''"
proof -
  have h: "list_all (\<lambda>p. \<not> sublist p
      (fixImports ''import { X } from '../Icons'; import { cn } from '../../lib/utils';''
         ''~/components'' ''~/lib''))
     (single_patterns @ global_patterns)"
    by code_simp
  then have "\<forall>p \<in> set (single_patterns @ global_patterns). \<not> sublist p
      (fixImports ''import { X } from '../Icons'; import { cn } from '../../lib/utils';''
         ''~/components'' ''~/lib'')"
    unfolding list_all_iff .
  from fixImports_idempotent[OF this] h show ?thesis by blast
qed


section \<open>Counting occurrences\<close>

















subsection \<open>One pattern alone in the text\<close>














text \<open>Each of the six rules on a text of its own, with the usual aliases: the first three
  rewrite the first of two occurrences, the last three rewrite both.\<close>

lemma fixImports_rules_sample:
  "list_all (\<lambda>(p, r). fixImports (''a '' @ p @ '' b '' @ p) ''~/components'' ''~/lib''
                      = ''a '' @ r @ '' b '' @ p)
     (take 3 (rewrite_rules ''~/components'' ''~/lib''))
   \<and> list_all (\<lambda>(p, r). fixImports (join p [''a '', '' b '', '' c'']) ''~/components'' ''~/lib''
                      = join r [''a '', '' b '', '' c''])
     (drop 3 (rewrite_rules ''~/components'' ''~/lib''))"
  by code_simp

section \<open>Facts about the resolver\<close>

lemma find_component_name:
  "find_component catalog n = Some c \<Longrightarrow> name c = n \<and> c \<in> set catalog"
  unfolding find_component_def by (induction catalog) (auto split: if_splits)

lemma find_component_None:
  "find_component catalog n = None \<longleftrightarrow> n \<notin> set (map name catalog)"
  unfolding find_component_def by (induction catalog) auto

lemma resolve_loop_result:
  assumes "resolve_loop catalog acc todo = Inr res"
    and "distinct (map name acc)"
    and "\<forall>c \<in> set acc. \<forall>d \<in> set (dependencies c). d \<in> set (map name acc) \<union> set todo"
  shows "distinct (map name res)
     \<and> (\<forall>c \<in> set res. \<forall>d \<in> set (dependencies c). d \<in> set (map name res))
     \<and> set (map name acc) \<union> set todo \<subseteq> set (map name res)"
  using assms
proof (induction catalog acc todo rule: resolve_loop.induct)
  case (1 catalog acc)
  then show ?case by auto
next
  case (2 catalog acc n todo)
  show ?case
  proof (cases "n \<in> set (map name acc)")
    case True
    with "2.prems" have r: "resolve_loop catalog acc todo = Inr res" by simp
    have "\<forall>c \<in> set acc. \<forall>d \<in> set (dependencies c). d \<in> set (map name acc) \<union> set todo"
      using "2.prems"(3) True by auto
    from "2.IH"(1)[OF True r "2.prems"(2) this] True show ?thesis by auto
  next
    case False
    with "2.prems"(1) obtain c where c: "find_component catalog n = Some c"
      and r: "resolve_loop catalog (acc @ [c]) (dependencies c @ todo) = Inr res"
      by (auto split: option.splits)
    from find_component_name[OF c] have nm: "name c = n" by simp
    have d: "distinct (map name (acc @ [c]))"
      using "2.prems"(2) False nm by auto
    have cl: "\<forall>c' \<in> set (acc @ [c]). \<forall>d \<in> set (dependencies c').
        d \<in> set (map name (acc @ [c])) \<union> set (dependencies c @ todo)"
      using "2.prems"(3) nm by auto
    from "2.IH"(2)[OF False c r d cl] nm show ?thesis by auto
  qed
qed

lemma resolve_loop_total:
  assumes "\<forall>c \<in> set catalog. set (dependencies c) \<subseteq> set (map name catalog)"
  shows "set todo \<subseteq> set (map name catalog) \<Longrightarrow> \<exists>res. resolve_loop catalog acc todo = Inr res"
  using assms
proof (induction catalog acc todo rule: resolve_loop.induct)
  case (1 catalog acc)
  then show ?case by simp
next
  case (2 catalog acc n todo)
  show ?case
  proof (cases "n \<in> set (map name acc)")
    case True
    with "2.IH"(1)[OF True] "2.prems" show ?thesis by simp
  next
    case False
    from "2.prems"(1) have "n \<in> set (map name catalog)" by simp
    then obtain c where c: "find_component catalog n = Some c"
      using find_component_None[of catalog n] by (cases "find_component catalog n") auto
    from find_component_name[OF c] "2.prems" have
      "set (dependencies c @ todo) \<subseteq> set (map name catalog)" by auto
    from "2.IH"(2)[OF False c this "2.prems"(2)] False c show ?thesis by simp
  qed
qed

lemma getAll_valid:
  "set requested \<subseteq> set (map name catalog) \<Longrightarrow>
     getAllComponentsToWrite catalog requested = resolve_loop catalog [] requested"
  by (auto simp: getAllComponentsToWrite_def Let_def filter_empty_conv find_component_None)

text \<open>
  Claim C3. When every requested name is in the catalog, a set the resolver returns has no
  component name twice, contains every declared dependency of each of its components, and
  contains the requested components; and when the catalog satisfies its invariant (every
  declared dependency is a name of the catalog), the resolver does return a set.
\<close>

theorem getAllComponentsToWrite_distinct_closed:
  assumes "set requested \<subseteq> set (map name catalog)"
  shows "(\<forall>res. getAllComponentsToWrite catalog requested = Inr res \<longrightarrow>
            distinct (map name res)
            \<and> (\<forall>c \<in> set res. \<forall>d \<in> set (dependencies c). d \<in> set (map name res))
            \<and> set requested \<subseteq> set (map name res))
       \<and> ((\<forall>c \<in> set catalog. set (dependencies c) \<subseteq> set (map name catalog)) \<longrightarrow>
            (\<exists>res. getAllComponentsToWrite catalog requested = Inr res))"
proof (rule conjI)
  show "\<forall>res. getAllComponentsToWrite catalog requested = Inr res \<longrightarrow>
            distinct (map name res)
            \<and> (\<forall>c \<in> set res. \<forall>d \<in> set (dependencies c). d \<in> set (map name res))
            \<and> set requested \<subseteq> set (map name res)"
  proof (intro allI impI)
    fix res assume "getAllComponentsToWrite catalog requested = Inr res"
    then have "resolve_loop catalog [] requested = Inr res"
      using getAll_valid[OF assms] by simp
    from resolve_loop_result[OF this]
    show "distinct (map name res)
        \<and> (\<forall>c \<in> set res. \<forall>d \<in> set (dependencies c). d \<in> set (map name res))
        \<and> set requested \<subseteq> set (map name res)"
      by simp
  qed
next
  show "(\<forall>c \<in> set catalog. set (dependencies c) \<subseteq> set (map name catalog)) \<longrightarrow>
            (\<exists>res. getAllComponentsToWrite catalog requested = Inr res)"
  proof
    assume "\<forall>c \<in> set catalog. set (dependencies c) \<subseteq> set (map name catalog)"
    from resolve_loop_total[OF this assms, of "[]"]
    show "\<exists>res. getAllComponentsToWrite catalog requested = Inr res"
      using getAll_valid[OF assms] by simp
  qed
qed

theorem getAllComponentsToWrite_distinct_closed_witness:
  "set [''dialog''] \<subseteq> set (map name sample_catalog)
   \<and> getAllComponentsToWrite sample_catalog [''dialog''] = Inr [sample_dialog, sample_icons]
   \<and> distinct (map name [sample_dialog, sample_icons])
   \<and> list_all (\<lambda>c. list_all (\<lambda>d. d \<in> set (map name [sample_dialog, sample_icons]))
          (dependencies c)) [sample_dialog, sample_icons]
   \<and> list_all (\<lambda>c. list_all (\<lambda>d. d \<in> set (map name sample_catalog)) (dependencies c))
        sample_catalog"
proof -
  have h: "set [''dialog''] \<subseteq> set (map name sample_catalog)"
    by (simp add: sample_catalog_def sample_dialog_def)
  have r: "getAllComponentsToWrite sample_catalog [''dialog''] = Inr [sample_dialog, sample_icons]"
    by (simp add: getAllComponentsToWrite_def sample_catalog_def find_component_def
        sample_icons_def sample_dialog_def)
  have c: "list_all (\<lambda>c. list_all (\<lambda>d. d \<in> set (map name sample_catalog)) (dependencies c))
        sample_catalog"
    by (simp add: sample_catalog_def sample_icons_def sample_dialog_def)
  from getAllComponentsToWrite_distinct_closed[OF h] r
  have "distinct (map name [sample_dialog, sample_icons])
     \<and> (\<forall>c \<in> set [sample_dialog, sample_icons]. \<forall>d \<in> set (dependencies c).
           d \<in> set (map name [sample_dialog, sample_icons]))"
    by blast
  then have "distinct (map name [sample_dialog, sample_icons])
     \<and> list_all (\<lambda>c. list_all (\<lambda>d. d \<in> set (map name [sample_dialog, sample_icons]))
          (dependencies c)) [sample_dialog, sample_icons]"
    unfolding list_all_iff by blast
  with h r c show ?thesis by blast
qed

section \<open>The add command when resolution fails\<close>

lemma find_is_find_component:
  "(find (\<lambda>entry. name entry = n) (catalog :: Component list) = None)
     = (n \<notin> set (map name catalog))"
  using find_component_None[of catalog n] by (simp add: find_component_def)

lemma getAll_invalid:
  assumes "\<exists>n \<in> set requested. n \<notin> set (map name catalog)"
  shows "getAllComponentsToWrite catalog requested
     = Inl (UnknownComponentError (filter (\<lambda>n. n \<notin> set (map name catalog)) requested))"
proof -
  have "filter (\<lambda>n. find_component catalog n = None) requested
      = filter (\<lambda>n. n \<notin> set (map name catalog)) requested"
    by (simp add: find_component_None)
  moreover from assms have "filter (\<lambda>n. n \<notin> set (map name catalog)) requested \<noteq> []"
    by (auto simp: filter_empty_conv)
  ultimately show ?thesis by (simp add: getAllComponentsToWrite_def Let_def)
qed

text \<open>
  Claim C2. When a requested name is not in the catalog, the resolver fails with the error
  that lists exactly the unknown names; the add command then reports
  \<^verbatim>\<open>Invalid component(s):\<close> followed by exactly the requested names that the catalog does not
  have, ends the process with exit code 1, and has not touched the file tree.
\<close>

theorem add_rejects_unknown_components:
  assumes "components opts = Some requested
      \<or> ((components opts = None \<or> components opts = Some []) \<and> selection = Some requested)"
    and "\<exists>n \<in> set requested. n \<notin> set (map name catalog)"
  shows "\<exists>w'. add_action e catalog (getAllComponentsToWrite catalog) selection config opts w
          = (Exited 1, w')
      \<and> getAllComponentsToWrite catalog requested
          = Inl (UnknownComponentError (filter (\<lambda>n. n \<notin> set (map name catalog)) requested))
      \<and> last (trace w') = LoggerError (''Invalid component(s): ''
            @ join '', '' (filter (\<lambda>n. n \<notin> set (map name catalog)) requested))
      \<and> set (filter (\<lambda>n. n \<notin> set (map name catalog)) requested)
          = {n \<in> set requested. n \<notin> set (map name catalog)}
      \<and> fs w' = fs w"
proof -
  from assms(2) have ne: "requested \<noteq> []" by auto
  note g = getAll_invalid[OF assms(2)]
  from assms(1) show ?thesis
  proof
    assume "components opts = Some requested"
    with ne g show ?thesis
      by (simp add: add_action_def Let_def emit_def find_is_find_component)
  next
    assume "(components opts = None \<or> components opts = Some []) \<and> selection = Some requested"
    with ne g show ?thesis
      by (auto simp: add_action_def Let_def emit_def find_is_find_component)
  qed
qed

text \<open>
  Claim C10. When \<^verbatim>\<open>getAllComponentsToWrite\<close> throws an error other than the
  invalid-component error, the add command logs the error and goes on with an empty list of
  components: nothing is written, \<^verbatim>\<open>Done.\<close> is reported, and the action returns, which ends
  the process with exit code 0.
\<close>

theorem add_continues_after_other_error:
  assumes "components opts = Some requested
      \<or> ((components opts = None \<or> components opts = Some []) \<and> selection = Some requested)"
    and "requested \<noteq> []"
    and "getAll requested = Inl err"
    and "\<forall>names. err \<noteq> UnknownComponentError names"
  shows "add_action e COMPONENTS getAll selection config opts w
          = (Returned, w\<lparr>trace := trace w
               @ (if components opts = Some requested then []
                  else [Prompt ''Which components would you like to add?''])
               @ [SpinnerStart ''Installing components...'',
                  LoggerErrorValue err, SpinnerSucceed ''Done.'']\<rparr>)
       \<and> exit_code Returned = Some 0"
proof -
  from assms(1) show ?thesis
  proof
    assume "components opts = Some requested"
    with assms(2,3,4) show ?thesis
      by (cases err) (simp_all add: add_action_def Let_def emit_def exit_code_def)
  next
    assume "(components opts = None \<or> components opts = Some []) \<and> selection = Some requested"
    with assms(2,3,4) show ?thesis
      by (cases err) (auto simp: add_action_def Let_def emit_def exit_code_def)
  qed
qed

section \<open>What the installer changes in the file tree\<close>

lemma emit_fs [simp]: "fs (emit ev w) = fs w"
  and emit_answers [simp]: "answers (emit ev w) = answers w"
  and emit_trace [simp]: "trace (emit ev w) = trace w @ [ev]"
  by (simp_all add: emit_def)

lemma mkdir_change:
  assumes "mkdir e files d = Inr files'" "files' p \<noteq> files p"
  shows "files p = None \<and> files' p = Some Dir \<and> prefix p (fst d) \<and> p \<noteq> []"
  using assms by (auto simp: mkdir_def Let_def split: if_splits)

lemma ensureDir_change:
  assumes "ensureDir e files d = Inr files'" "files' p \<noteq> files p"
  shows "files p = None \<and> files' p = Some Dir \<and> prefix p (fst d) \<and> p \<noteq> []"
  using assms mkdir_change[of e files d files' p]
  by (auto simp: ensureDir_def split: if_splits)

lemma ensureDir_readFile:
  assumes "ensureDir e files d = Inr files'"
  shows "readFile e files' p = readFile e files p"
proof (cases "files' p = files p")
  case True
  then show ?thesis by (simp add: readFile_def)
next
  case False
  from ensureDir_change[OF assms False] show ?thesis by (simp add: readFile_def)
qed

lemma ensureDir_existsSync:
  assumes "ensureDir e files d = Inr files'" "existsSync files r"
  shows "existsSync files' r" "files' (fst r) = files (fst r)"
proof -
  show same: "files' (fst r) = files (fst r)"
  proof (rule ccontr)
    assume "files' (fst r) \<noteq> files (fst r)"
    from ensureDir_change[OF assms(1) this] assms(2) show False
      by (simp add: existsSync_def)
  qed
  with assms(2) show "existsSync files' r" by (simp add: existsSync_def)
qed

lemma writeFile_result:
  assumes "writeFile e files p data = Inr files'"
  shows "files' = files(fst p \<mapsto> File data)"
  using assms by (auto simp: writeFile_def Let_def split: if_splits)

lemma handled_fs: "handled e err w = (out, w') \<Longrightarrow> fs w' = fs w"
  by (auto simp: handled_def split: option.splits)

lemma installEntry_change:
  assumes "installEntry e component compPath config w = (out, w')" "fs w' p \<noteq> fs w p"
  shows "p = fst (destination config compPath) \<and>
     (\<exists>content. readFile e (fs w) (path_resolve (procCwd e) (entry_from compPath)) = Inr content
        \<and> fs w' p = Some (File (fixImports content (aliases_components config) (aliases_lib config))))"
proof (cases "readFile e (fs w) (path_resolve (procCwd e) (entry_from compPath))")
  case (Inl err)
  with assms show ?thesis
    by (auto simp: installEntry_def Let_def dest: handled_fs)
next
  case (Inr content)
  show ?thesis
  proof (cases "writeFile e (fs w) (destination config compPath)
                  (fixImports content (aliases_components config) (aliases_lib config))")
    case (Inl err)
    with Inr assms show ?thesis
      by (auto simp: installEntry_def Let_def dest: handled_fs)
  next
    case r: (Inr files)
    from writeFile_result[OF r] Inr r assms show ?thesis
      by (auto simp: installEntry_def Let_def split: if_splits)
  qed
qed

lemma prompts_confirm_fs: "prompts_confirm m w = (a, w') \<Longrightarrow> fs w' = fs w"
  by (auto simp: prompts_confirm_def split: list.splits)

lemma writeEntry_change:
  assumes "writeEntry e component compPath config opts w = (out, w')" "fs w' p \<noteq> fs w p"
  shows "(fs w p = None \<and> fs w' p = Some Dir \<and> prefix p (fst (target_dir config compPath)))
     \<or> (p = fst (destination config compPath) \<and>
        (\<exists>content. readFile e (fs w) (path_resolve (procCwd e) (entry_from compPath)) = Inr content
          \<and> fs w' p = Some (File (fixImports content (aliases_components config) (aliases_lib config)))))"
proof (cases "ensureDir e (fs w) (target_dir config compPath)")
  case (Inl err)
  with assms show ?thesis by (simp add: writeEntry_def)
next
  case (Inr files)
  note rd = ensureDir_readFile[OF Inr]
  note ch = ensureDir_change[OF Inr]
  have "fs w' = files
     \<or> (\<exists>w1. fs w1 = files \<and> installEntry e component compPath config w1 = (out, w'))"
  proof (cases "\<not> overwrite opts \<and> existsSync files (destination config compPath)")
    case True
    obtain answer w2 where pc: "prompts_confirm
        (''File '' @ join ''/'' [to_folder compPath, to_file compPath]
           @ '' already exists. Would you like to overwrite?'')
        (emit SpinnerStop (w\<lparr>fs := files\<rparr>)) = (answer, w2)"
      by (cases "prompts_confirm
        (''File '' @ join ''/'' [to_folder compPath, to_file compPath]
           @ '' already exists. Would you like to overwrite?'')
        (emit SpinnerStop (w\<lparr>fs := files\<rparr>))") auto
    from prompts_confirm_fs[OF pc] have f2: "fs w2 = files" by simp
    show ?thesis
    proof (cases answer)
      case True
      with assms(1) Inr \<open>\<not> overwrite opts \<and> existsSync files (destination config compPath)\<close> pc f2
      show ?thesis by (auto simp: writeEntry_def Let_def)
    next
      case False
      with assms(1) Inr \<open>\<not> overwrite opts \<and> existsSync files (destination config compPath)\<close> pc f2
      show ?thesis by (auto simp: writeEntry_def Let_def)
    qed
  next
    case False
    with assms(1) Inr have
      "installEntry e component compPath config (w\<lparr>fs := files\<rparr>) = (out, w')"
      by (auto simp: writeEntry_def Let_def)
    moreover have "fs (w\<lparr>fs := files\<rparr>) = files" by simp
    ultimately show ?thesis by blast
  qed
  then consider
      (skip) "fs w' = files"
    | (inst) w1 where "fs w1 = files" "installEntry e component compPath config w1 = (out, w')"
    by blast
  then show ?thesis
  proof cases
    case skip
    with assms(2) ch[of p] show ?thesis by auto
  next
    case inst
    show ?thesis
    proof (cases "fs w' p = files p")
      case True
      with assms(2) ch[of p] show ?thesis by auto
    next
      case False
      with installEntry_change[OF inst(2), of p] inst(1) rd show ?thesis by auto
    qed
  qed
qed

subsection \<open>Destinations without a parent segment\<close>

lemma applySegment_prefix: "seg \<noteq> ''..'' \<Longrightarrow> prefix base (applySegment base seg)"
  by (simp add: applySegment_def)

lemma foldl_applySegment_prefix:
  "''..'' \<notin> set segs \<Longrightarrow> prefix base (foldl applySegment base segs)"
proof (induction segs arbitrary: base)
  case Nil
  then show ?case by simp
next
  case (Cons seg segs)
  then have "prefix base (applySegment base seg)"
    and "prefix (applySegment base seg) (foldl applySegment (applySegment base seg) segs)"
    by (auto intro: applySegment_prefix)
  then show ?case by (simp add: prefix_order.order_trans)
qed

lemma path_join_under:
  "no_parent_segment rel \<Longrightarrow> prefix (fst base) (fst (path_join base rel))"
  by (simp add: path_join_def Let_def no_parent_segment_def foldl_applySegment_prefix)

lemma destination_under:
  assumes "no_parent_segment (to_folder entry)" "no_parent_segment (to_file entry)"
  shows "prefix (resolvedPaths_components config) (fst (destination config entry))"
proof -
  have "prefix (resolvedPaths_components config) (fst (target_dir config entry))"
    unfolding target_dir_def
    using path_join_under[OF assms(1), of "(resolvedPaths_components config, False)"] by simp
  moreover have "prefix (fst (target_dir config entry)) (fst (destination config entry))"
    unfolding destination_def by (rule path_join_under[OF assms(2)])
  ultimately show ?thesis by (rule prefix_order.order_trans)
qed

lemma writeFiles_change:
  assumes "writeFiles e component entries config opts w = (out, w')" "fs w' p \<noteq> fs w p"
  shows "(fs w p = None \<and> fs w' p = Some Dir
            \<and> (\<exists>entry \<in> set entries. prefix p (fst (target_dir config entry))))
     \<or> (\<exists>entry \<in> set entries. p = fst (destination config entry) \<and>
          (\<exists>content. fs w' p
             = Some (File (fixImports content (aliases_components config) (aliases_lib config)))))"
  using assms
proof (induction entries arbitrary: w)
  case Nil
  then show ?case by simp
next
  case (Cons x xs)
  obtain o1 w1 where step: "writeEntry e component x config opts w = (o1, w1)"
    by (cases "writeEntry e component x config opts w") auto
  note first = writeEntry_change[OF step, of p]
  show ?case
  proof (cases "o1 = Returned")
    case False
    with Cons.prems(1) step have "w' = w1" by (cases o1) auto
    with first Cons.prems(2) show ?thesis by auto
  next
    case True
    with Cons.prems(1) step have run: "writeFiles e component xs config opts w1 = (out, w')"
      by simp
    show ?thesis
    proof (cases "fs w' p = fs w1 p")
      case True
      with first Cons.prems(2) show ?thesis by auto
    next
      case False
      from Cons.IH[OF run False] show ?thesis
      proof
        assume a: "fs w1 p = None \<and> fs w' p = Some Dir
            \<and> (\<exists>entry \<in> set xs. prefix p (fst (target_dir config entry)))"
        have "fs w p = None"
        proof (rule ccontr)
          assume "fs w p \<noteq> None"
          with a have "fs w1 p \<noteq> fs w p" by auto
          from writeEntry_change[OF step this] a show False by auto
        qed
        with a show ?thesis by auto
      next
        assume "\<exists>entry \<in> set xs. p = fst (destination config entry) \<and>
          (\<exists>content. fs w' p
             = Some (File (fixImports content (aliases_components config) (aliases_lib config))))"
        then show ?thesis by auto
      qed
    qed
  qed
qed

text \<open>
  Claim C8, as amended. When no file entry has a \<^verbatim>\<open>..\<close> segment in its folder or file name,
  \<^verbatim>\<open>writeFiles\<close> changes the file tree only in two ways: a directory is created where
  nothing was, on the way to the target directory of an entry; or a file is written at the
  destination of one of the entries, and that destination lies at or under
  \<^verbatim>\<open>resolvedPaths.components\<close>.
\<close>

theorem writeFiles_stays_under_components:
  assumes "writeFiles e component entries config opts w = (out, w')"
    and "\<forall>entry \<in> set entries.
           no_parent_segment (to_folder entry) \<and> no_parent_segment (to_file entry)"
    and "fs w' p \<noteq> fs w p"
  shows "(fs w p = None \<and> fs w' p = Some Dir
            \<and> (\<exists>entry \<in> set entries. prefix p (fst (target_dir config entry))))
     \<or> (is_file (fs w') p \<and> prefix (resolvedPaths_components config) p
          \<and> (\<exists>entry \<in> set entries. p = fst (destination config entry)))"
proof -
  from writeFiles_change[OF assms(1,3)] show ?thesis
  proof
    assume "fs w p = None \<and> fs w' p = Some Dir
            \<and> (\<exists>entry \<in> set entries. prefix p (fst (target_dir config entry)))"
    then show ?thesis by blast
  next
    assume "\<exists>entry \<in> set entries. p = fst (destination config entry) \<and>
          (\<exists>content. fs w' p
             = Some (File (fixImports content (aliases_components config) (aliases_lib config))))"
    then obtain entry content where en: "entry \<in> set entries" "p = fst (destination config entry)"
      "fs w' p = Some (File (fixImports content (aliases_components config) (aliases_lib config)))"
      by blast
    from en(1) assms(2) have "prefix (resolvedPaths_components config) (fst (destination config entry))"
      by (auto intro: destination_under)
    with en show ?thesis by (auto simp: is_file_def)
  qed
qed

section \<open>The overwrite conflict\<close>

lemma installEntry_success:
  assumes "readFile e (fs w) (path_resolve (procCwd e) (entry_from compPath)) = Inr content"
    and "writeFile e (fs w) (destination config compPath)
           (fixImports content (aliases_components config) (aliases_lib config)) = Inr files2"
  shows "installEntry e component compPath config w
     = (Returned, w\<lparr>fs := files2,
          trace := trace w @ [SpinnerStart (''Installing '' @ name component @ ''...'')]\<rparr>)"
  using assms by (simp add: installEntry_def Let_def emit_def)

lemma installEntry_trace:
  "\<exists>evs. trace (snd (installEntry e component compPath config w)) = trace w @ evs
     \<and> (\<forall>m. Prompt m \<notin> set evs)"
  by (auto simp: installEntry_def Let_def handled_def emit_def
      split: sum.splits option.splits)

lemma installEntry_answers:
  "answers (snd (installEntry e component compPath config w)) = answers w"
  by (auto simp: installEntry_def Let_def handled_def emit_def
      split: sum.splits option.splits)

lemma sample_dest:
  "destination sample_config sample_entry
     = ([''proj'', ''components'', ''ui'', ''dialog.tsx''], False)"
  "target_dir sample_config sample_entry = ([''proj'', ''components'', ''ui''], False)"
  "path_resolve (procCwd sample_env) (entry_from sample_entry) = [''repo'', ''src'', ''dialog.tsx'']"
  "destination sample_config escaping_entry = ([''proj'', ''x.tsx''], False)"
  "target_dir sample_config escaping_entry = ([''proj''], False)"
  "path_resolve (procCwd sample_env) (entry_from escaping_entry) = [''repo'', ''src'', ''dialog.tsx'']"
  "destination sample_config missing_entry
     = ([''proj'', ''components'', ''ui'', ''new.tsx''], False)"
  "target_dir sample_config missing_entry = ([''proj'', ''components'', ''ui''], False)"
  "path_resolve (procCwd sample_env) (entry_from missing_entry) = [''repo'', ''src'', ''missing.tsx'']"
  "destination sample_config slash_entry
     = ([''proj'', ''components'', ''ui'', ''dialog.tsx''], True)"
  "target_dir sample_config slash_entry = ([''proj'', ''components'', ''ui''], False)"
  "path_resolve (procCwd sample_env) (entry_from slash_entry) = [''repo'', ''src'', ''dialog.tsx'']"
  by (simp_all add: sample_env_def sample_config_def sample_entry_def escaping_entry_def
      missing_entry_def slash_entry_def target_dir_def destination_def path_join_def
      path_resolve_def applySegment_def trailing_separator_def Let_def)

lemma sample_fix:
  "fixImports ''import { X } from '../Icons';'' ''~/components'' ''~/lib''
     = ''import { X } from '~/components/Icons';''"
  by code_simp

text \<open>
  Claim C8 as stated fails: with the folder \<^verbatim>\<open>..\<close> in a file entry, \<^verbatim>\<open>writeFiles\<close> creates a
  file next to the components directory, not under it.
\<close>

theorem writeFiles_escapes_components_counterexample:
  "fs (snd (writeFiles sample_env sample_dialog [escaping_entry] sample_config
        \<lparr>components = None, overwrite = False\<rparr> (sample_world []))) [''proj'', ''x.tsx'']
     = Some (File ''import { X } from '~/components/Icons';'')
   \<and> fs (sample_world []) [''proj'', ''x.tsx''] = None
   \<and> \<not> prefix (resolvedPaths_components sample_config) [''proj'', ''x.tsx'']"
proof -
  have "writeEntry sample_env sample_dialog escaping_entry sample_config
        \<lparr>components = None, overwrite = False\<rparr> (sample_world [])
     = (Returned, \<lparr>fs = sample_files([''proj'', ''x.tsx''] \<mapsto>
            File ''import { X } from '~/components/Icons';''),
          answers = [], trace = [SpinnerStart ''Installing dialog...'']\<rparr>)"
    unfolding writeEntry_def installEntry_def sample_dest
    by (simp add: ensureDir_def existsSync_def readFile_def writeFile_def emit_def Let_def
        sample_fix sample_env_def sample_files_def sample_world_def sample_dialog_def
        sample_config_def)
  then show ?thesis
    by (simp add: sample_world_def sample_files_def sample_config_def)
qed

lemma writeEntry_declined:
  assumes "\<not> overwrite opts"
    and "ensureDir e (fs w) (target_dir config compPath) = Inr files"
    and "existsSync files (destination config compPath)"
    and "answers w = [] \<or> (\<exists>later. answers w = False # later)"
  shows "writeEntry e component compPath config opts w
     = (Returned, w\<lparr>fs := files, answers := tl (answers w),
          trace := trace w @ [SpinnerStop, Prompt (overwrite_question compPath),
                     LoggerInfo (skip_message component)]\<rparr>)"
proof -
  have pc: "prompts_confirm (overwrite_question compPath) (emit SpinnerStop (w\<lparr>fs := files\<rparr>))
     = (False, w\<lparr>fs := files, answers := tl (answers w),
          trace := trace w @ [SpinnerStop, Prompt (overwrite_question compPath)]\<rparr>)"
    using assms(4) by (auto simp: prompts_confirm_def emit_def)
  show ?thesis
    unfolding writeEntry_def Let_def overwrite_question_def[symmetric] skip_message_def[symmetric]
    using assms(1,2,3) by (simp add: pc)
qed

text \<open>
  Claim C4. When the destination of a file entry exists, overwriting is not forced and the
  operator declines (or leaves the prompt), \<^verbatim>\<open>writeFiles\<close> goes on with the remaining
  entries; the destination and every other existing node of the file tree are as they were,
  and the operator has seen the prompt and the note that the file was skipped.
\<close>

theorem writeFiles_skips_declined_file:
  assumes "\<not> overwrite opts"
    and "ensureDir e (fs w) (target_dir config compPath) = Inr files"
    and "existsSync (fs w) (destination config compPath)"
    and "answers w = [] \<or> (\<exists>later. answers w = False # later)"
  shows "writeFiles e component (compPath # rest) config opts w
       = writeFiles e component rest config opts
           (w\<lparr>fs := files, answers := tl (answers w),
              trace := trace w @ [SpinnerStop, Prompt (overwrite_question compPath),
                         LoggerInfo (skip_message component)]\<rparr>)
     \<and> files (fst (destination config compPath)) = fs w (fst (destination config compPath))
     \<and> (\<forall>p. fs w p \<noteq> None \<longrightarrow> files p = fs w p)"
proof (intro conjI)
  note ex = ensureDir_existsSync[OF assms(2,3)]
  show "writeFiles e component (compPath # rest) config opts w
       = writeFiles e component rest config opts
           (w\<lparr>fs := files, answers := tl (answers w),
              trace := trace w @ [SpinnerStop, Prompt (overwrite_question compPath),
                         LoggerInfo (skip_message component)]\<rparr>)"
    by (simp only: writeFiles.simps writeEntry_declined[OF assms(1,2) ex(1) assms(4)]
        prod.case outcome.case)
  show "files (fst (destination config compPath)) = fs w (fst (destination config compPath))"
    by (rule ex(2))
  show "\<forall>p. fs w p \<noteq> None \<longrightarrow> files p = fs w p"
  proof (intro allI impI)
    fix p assume "fs w p \<noteq> None"
    show "files p = fs w p"
    proof (rule ccontr)
      assume "files p \<noteq> fs w p"
      from ensureDir_change[OF assms(2) this] \<open>fs w p \<noteq> None\<close> show False by simp
    qed
  qed
qed

lemma writeEntry_no_prompt:
  assumes "ensureDir e (fs w) (target_dir config compPath) = Inr files"
    and "\<not> (\<not> overwrite opts \<and> existsSync files (destination config compPath))"
  shows "writeEntry e component compPath config opts w
      = installEntry e component compPath config (w\<lparr>fs := files\<rparr>)"
  using assms by (auto simp: writeEntry_def Let_def)

lemma writeEntry_trace_prompt:
  assumes "ensureDir e (fs w) (target_dir config compPath) = Inr files"
  shows "\<exists>evs. trace (snd (writeEntry e component compPath config opts w)) = trace w @ evs
            \<and> ((\<exists>m. Prompt m \<in> set evs)
                 \<longleftrightarrow> (\<not> overwrite opts \<and> existsSync files (destination config compPath)))"
proof (cases "\<not> overwrite opts \<and> existsSync files (destination config compPath)")
  case True
  obtain answer w2 where pc: "prompts_confirm (overwrite_question compPath)
      (emit SpinnerStop (w\<lparr>fs := files\<rparr>)) = (answer, w2)"
    by (cases "prompts_confirm (overwrite_question compPath)
      (emit SpinnerStop (w\<lparr>fs := files\<rparr>))") auto
  then have t2: "trace w2 = trace w @ [SpinnerStop, Prompt (overwrite_question compPath)]"
    by (auto simp: prompts_confirm_def emit_def split: list.splits)
  have unf: "writeEntry e component compPath config opts w
     = (if \<not> answer then (Returned, emit (LoggerInfo (skip_message component)) w2)
        else installEntry e component compPath config w2)"
    unfolding writeEntry_def Let_def overwrite_question_def[symmetric]
      skip_message_def[symmetric]
    using True assms by (simp add: pc)
  have "\<exists>evs. trace (snd (writeEntry e component compPath config opts w)) = trace w @ evs
            \<and> (\<exists>m. Prompt m \<in> set evs)"
  proof (cases answer)
    case False
    with unf t2 have "trace (snd (writeEntry e component compPath config opts w))
        = trace w @ [SpinnerStop, Prompt (overwrite_question compPath),
            LoggerInfo (skip_message component)]"
      by simp
    then show ?thesis by auto
  next
    case a: True
    from installEntry_trace[of e component compPath config w2] obtain evs where
      "trace (snd (installEntry e component compPath config w2)) = trace w2 @ evs" by blast
    with unf a t2 have "trace (snd (writeEntry e component compPath config opts w))
        = trace w @ [SpinnerStop, Prompt (overwrite_question compPath)] @ evs"
      by simp
    then show ?thesis by auto
  qed
  with True show ?thesis by simp
next
  case False
  from installEntry_trace[of e component compPath config "w\<lparr>fs := files\<rparr>"]
  show ?thesis
    using False unfolding writeEntry_no_prompt[OF assms False] by auto
qed

lemma writeEntry_installs:
  assumes "ensureDir e (fs w) (target_dir config compPath) = Inr files"
    and "\<not> (\<not> overwrite opts \<and> existsSync files (destination config compPath))"
    and "readFile e files (path_resolve (procCwd e) (entry_from compPath)) = Inr content"
    and "writeFile e files (destination config compPath)
           (fixImports content (aliases_components config) (aliases_lib config)) = Inr files2"
  shows "writeEntry e component compPath config opts w
       = (Returned, w\<lparr>fs := files2,
            trace := trace w @ [SpinnerStart (''Installing '' @ name component @ ''...'')]\<rparr>)"
    and "files2 (fst (destination config compPath))
       = Some (File (fixImports content (aliases_components config) (aliases_lib config)))"
proof -
  from installEntry_success[of e "w\<lparr>fs := files\<rparr>" compPath content config files2 component]
    assms(3,4)
  show "writeEntry e component compPath config opts w
       = (Returned, w\<lparr>fs := files2,
            trace := trace w @ [SpinnerStart (''Installing '' @ name component @ ''...'')]\<rparr>)"
    unfolding writeEntry_no_prompt[OF assms(1,2)] by simp
  from writeFile_result[OF assms(4)]
  show "files2 (fst (destination config compPath))
       = Some (File (fixImports content (aliases_components config) (aliases_lib config)))"
    by simp
qed

lemma installEntry_trace_start:
  "\<exists>evs. trace (snd (installEntry e component compPath config w))
     = trace w @ SpinnerStart (''Installing '' @ name component @ ''...'') # evs"
  by (auto simp: installEntry_def Let_def handled_def emit_def
      split: sum.splits option.splits)

lemma writeEntry_trace_prefix:
  "prefix (trace w) (trace (snd (writeEntry e component compPath config opts w)))"
proof (cases "ensureDir e (fs w) (target_dir config compPath)")
  case (Inl err)
  then show ?thesis by (simp add: writeEntry_def)
next
  case (Inr files)
  from writeEntry_trace_prompt[OF Inr, of component opts] show ?thesis
    by (auto simp: prefix_def)
qed

lemma writeFiles_trace_prefix:
  "prefix (trace w) (trace (snd (writeFiles e component entries config opts w)))"
proof (induction entries arbitrary: w)
  case Nil
  then show ?case by simp
next
  case (Cons x xs)
  obtain o1 w1 where step: "writeEntry e component x config opts w = (o1, w1)"
    by (cases "writeEntry e component x config opts w") auto
  from writeEntry_trace_prefix[of w e component x config opts] step
  have p1: "prefix (trace w) (trace w1)" by simp
  show ?case
  proof (cases "o1 = Returned")
    case True
    with step have "writeFiles e component (x # xs) config opts w
        = writeFiles e component xs config opts w1" by simp
    with Cons.IH[of w1] p1 show ?thesis by (simp add: prefix_order.order_trans)
  next
    case False
    with step have "writeFiles e component (x # xs) config opts w = (o1, w1)"
      by (cases o1) auto
    with p1 show ?thesis by simp
  qed
qed

lemma writeFiles_trace_after_first:
  "prefix (trace (snd (writeEntry e component compPath config opts w)))
     (trace (snd (writeFiles e component (compPath # rest) config opts w)))"
proof -
  obtain o1 w1 where step: "writeEntry e component compPath config opts w = (o1, w1)"
    by (cases "writeEntry e component compPath config opts w") auto
  show ?thesis
  proof (cases "o1 = Returned")
    case True
    with step have "writeFiles e component (compPath # rest) config opts w
        = writeFiles e component rest config opts w1" by simp
    with writeFiles_trace_prefix[of w1 e component rest config opts] step show ?thesis
      by simp
  next
    case False
    with step have "writeFiles e component (compPath # rest) config opts w = (o1, w1)"
      by (cases o1) auto
    with step show ?thesis by simp
  qed
qed

lemma writeEntry_trace_prompted:
  assumes "ensureDir e (fs w) (target_dir config compPath) = Inr files"
    and "\<not> overwrite opts" "existsSync files (destination config compPath)"
  shows "prefix (trace w @ [SpinnerStop, Prompt (overwrite_question compPath)])
     (trace (snd (writeEntry e component compPath config opts w)))"
proof -
  obtain answer w2 where pc: "prompts_confirm (overwrite_question compPath)
      (emit SpinnerStop (w\<lparr>fs := files\<rparr>)) = (answer, w2)"
    by (cases "prompts_confirm (overwrite_question compPath)
      (emit SpinnerStop (w\<lparr>fs := files\<rparr>))") auto
  then have t2: "trace w2 = trace w @ [SpinnerStop, Prompt (overwrite_question compPath)]"
    by (auto simp: prompts_confirm_def emit_def split: list.splits)
  have unf: "writeEntry e component compPath config opts w
     = (if \<not> answer then (Returned, emit (LoggerInfo (skip_message component)) w2)
        else installEntry e component compPath config w2)"
    unfolding writeEntry_def Let_def overwrite_question_def[symmetric]
      skip_message_def[symmetric]
    using assms by (simp add: pc)
  show ?thesis
  proof (cases answer)
    case False
    with unf t2 show ?thesis by (simp add: prefix_def)
  next
    case True
    from installEntry_trace_start[of e component compPath config w2] obtain evs where
      "trace (snd (installEntry e component compPath config w2))
         = trace w2 @ SpinnerStart (''Installing '' @ name component @ ''...'') # evs"
      by blast
    with unf True t2 show ?thesis by (simp add: prefix_def)
  qed
qed

lemma writeFiles_first_prompt_iff:
  assumes "ensureDir e (fs w) (target_dir config compPath) = Inr files"
  shows "prefix (trace w @ [SpinnerStop, Prompt (overwrite_question compPath)])
            (trace (snd (writeFiles e component (compPath # rest) config opts w)))
          \<longleftrightarrow> (\<not> overwrite opts \<and> existsSync files (destination config compPath))"
proof (cases "\<not> overwrite opts \<and> existsSync files (destination config compPath)")
  case True
  then have a: "\<not> overwrite opts" and b: "existsSync files (destination config compPath)"
    by simp_all
  from writeEntry_trace_prompted[OF assms a b, of component]
    writeFiles_trace_after_first[of e component compPath config opts w rest]
  have "prefix (trace w @ [SpinnerStop, Prompt (overwrite_question compPath)])
            (trace (snd (writeFiles e component (compPath # rest) config opts w)))"
    by (rule prefix_order.order_trans)
  with True show ?thesis by simp
next
  case False
  from installEntry_trace_start[of e component compPath config "w\<lparr>fs := files\<rparr>"]
  obtain evs where "trace (snd (writeEntry e component compPath config opts w))
      = trace w @ SpinnerStart (''Installing '' @ name component @ ''...'') # evs"
    unfolding writeEntry_no_prompt[OF assms False] by auto
  with writeFiles_trace_after_first[of e component compPath config opts w rest]
  obtain zs where "trace (snd (writeFiles e component (compPath # rest) config opts w))
      = trace w @ SpinnerStart (''Installing '' @ name component @ ''...'') # evs @ zs"
    by (auto simp: prefix_def)
  then have "\<not> prefix (trace w @ [SpinnerStop, Prompt (overwrite_question compPath)])
            (trace (snd (writeFiles e component (compPath # rest) config opts w)))"
    by simp
  with False show ?thesis by simp
qed

text \<open>
  Claim C5, as amended. For the entry that \<^verbatim>\<open>writeFiles\<close> takes up, once its target directory
  is there: the first thing shown is the overwrite prompt if and only if overwriting is not
  forced and the destination exists. In every other case the run goes straight to the
  installation of the entry, asking nothing; and provided the source can be read and the
  destination written, the run continues with the remaining entries from a file tree in
  which the destination holds the rewritten source, with nothing but the spinner shown. So
  a destination that does not exist is written whatever the flag, and a forced overwrite
  replaces an existing file without a prompt. When the source cannot be read or the
  destination cannot be written, the error goes to \<^verbatim>\<open>handleError\<close>, no file is written, and
  the run goes on with the remaining entries only if \<^verbatim>\<open>handleError\<close> returns.
\<close>

theorem writeFiles_prompt_iff:
  assumes "ensureDir e (fs w) (target_dir config compPath) = Inr files"
  shows "(prefix (trace w @ [SpinnerStop, Prompt (overwrite_question compPath)])
            (trace (snd (writeFiles e component (compPath # rest) config opts w)))
          \<longleftrightarrow> (\<not> overwrite opts \<and> existsSync files (destination config compPath)))
     \<and> (\<not> (\<not> overwrite opts \<and> existsSync files (destination config compPath)) \<longrightarrow>
           writeFiles e component (compPath # rest) config opts w
             = (case installEntry e component compPath config (w\<lparr>fs := files\<rparr>) of
                  (Returned, w') \<Rightarrow> writeFiles e component rest config opts w'
                | (out, w') \<Rightarrow> (out, w'))
           \<and> answers (snd (installEntry e component compPath config (w\<lparr>fs := files\<rparr>)))
               = answers w)
     \<and> (\<forall>content files2.
           \<not> (\<not> overwrite opts \<and> existsSync files (destination config compPath))
           \<and> readFile e files (path_resolve (procCwd e) (entry_from compPath)) = Inr content
           \<and> writeFile e files (destination config compPath)
                (fixImports content (aliases_components config) (aliases_lib config)) = Inr files2
           \<longrightarrow> writeFiles e component (compPath # rest) config opts w
                 = writeFiles e component rest config opts
                     (w\<lparr>fs := files2,
                        trace := trace w @ [SpinnerStart (''Installing '' @ name component @ ''...'')]\<rparr>)
               \<and> files2 (fst (destination config compPath))
                 = Some (File (fixImports content (aliases_components config) (aliases_lib config))))
     \<and> (\<forall>err. \<not> (\<not> overwrite opts \<and> existsSync files (destination config compPath))
           \<and> (readFile e files (path_resolve (procCwd e) (entry_from compPath)) = Inl err
                \<or> (\<exists>content.
                      readFile e files (path_resolve (procCwd e) (entry_from compPath)) = Inr content
                      \<and> writeFile e files (destination config compPath)
                           (fixImports content (aliases_components config) (aliases_lib config))
                          = Inl err))
           \<longrightarrow> writeFiles e component (compPath # rest) config opts w
                 = (case handled e err
                      (w\<lparr>fs := files,
                         trace := trace w @ [SpinnerStart (''Installing '' @ name component @ ''...'')]\<rparr>) of
                      (Returned, w') \<Rightarrow> writeFiles e component rest config opts w'
                    | (out, w') \<Rightarrow> (out, w'))
               \<and> fs (snd (handled e err
                      (w\<lparr>fs := files,
                         trace := trace w @ [SpinnerStart (''Installing '' @ name component @ ''...'')]\<rparr>)))
                   = files)"
proof (intro conjI)
  show "prefix (trace w @ [SpinnerStop, Prompt (overwrite_question compPath)])
            (trace (snd (writeFiles e component (compPath # rest) config opts w)))
          \<longleftrightarrow> (\<not> overwrite opts \<and> existsSync files (destination config compPath))"
    by (rule writeFiles_first_prompt_iff[OF assms])
next
  show "\<not> (\<not> overwrite opts \<and> existsSync files (destination config compPath)) \<longrightarrow>
           writeFiles e component (compPath # rest) config opts w
             = (case installEntry e component compPath config (w\<lparr>fs := files\<rparr>) of
                  (Returned, w') \<Rightarrow> writeFiles e component rest config opts w'
                | (out, w') \<Rightarrow> (out, w'))
           \<and> answers (snd (installEntry e component compPath config (w\<lparr>fs := files\<rparr>)))
               = answers w"
  proof
    assume n: "\<not> (\<not> overwrite opts \<and> existsSync files (destination config compPath))"
    show "writeFiles e component (compPath # rest) config opts w
             = (case installEntry e component compPath config (w\<lparr>fs := files\<rparr>) of
                  (Returned, w') \<Rightarrow> writeFiles e component rest config opts w'
                | (out, w') \<Rightarrow> (out, w'))
           \<and> answers (snd (installEntry e component compPath config (w\<lparr>fs := files\<rparr>)))
               = answers w"
      by (simp add: writeEntry_no_prompt[OF assms n] installEntry_answers)
  qed
next
  show "\<forall>content files2.
           \<not> (\<not> overwrite opts \<and> existsSync files (destination config compPath))
           \<and> readFile e files (path_resolve (procCwd e) (entry_from compPath)) = Inr content
           \<and> writeFile e files (destination config compPath)
                (fixImports content (aliases_components config) (aliases_lib config)) = Inr files2
           \<longrightarrow> writeFiles e component (compPath # rest) config opts w
                 = writeFiles e component rest config opts
                     (w\<lparr>fs := files2,
                        trace := trace w @ [SpinnerStart (''Installing '' @ name component @ ''...'')]\<rparr>)
               \<and> files2 (fst (destination config compPath))
                 = Some (File (fixImports content (aliases_components config) (aliases_lib config)))"
  proof (intro allI impI, elim conjE)
    fix content files2
    assume n: "\<not> (\<not> overwrite opts \<and> existsSync files (destination config compPath))"
      and r: "readFile e files (path_resolve (procCwd e) (entry_from compPath)) = Inr content"
      and wf: "writeFile e files (destination config compPath)
                (fixImports content (aliases_components config) (aliases_lib config)) = Inr files2"
    show "writeFiles e component (compPath # rest) config opts w
                 = writeFiles e component rest config opts
                     (w\<lparr>fs := files2,
                        trace := trace w @ [SpinnerStart (''Installing '' @ name component @ ''...'')]\<rparr>)
               \<and> files2 (fst (destination config compPath))
                 = Some (File (fixImports content (aliases_components config) (aliases_lib config)))"
      by (simp add: writeEntry_installs(1)[OF assms n r wf, of component]
          writeEntry_installs(2)[OF assms n r wf])
  qed
next
  show "\<forall>err. \<not> (\<not> overwrite opts \<and> existsSync files (destination config compPath))
           \<and> (readFile e files (path_resolve (procCwd e) (entry_from compPath)) = Inl err
                \<or> (\<exists>content.
                      readFile e files (path_resolve (procCwd e) (entry_from compPath)) = Inr content
                      \<and> writeFile e files (destination config compPath)
                           (fixImports content (aliases_components config) (aliases_lib config))
                          = Inl err))
           \<longrightarrow> writeFiles e component (compPath # rest) config opts w
                 = (case handled e err
                      (w\<lparr>fs := files,
                         trace := trace w @ [SpinnerStart (''Installing '' @ name component @ ''...'')]\<rparr>) of
                      (Returned, w') \<Rightarrow> writeFiles e component rest config opts w'
                    | (out, w') \<Rightarrow> (out, w'))
               \<and> fs (snd (handled e err
                      (w\<lparr>fs := files,
                         trace := trace w @ [SpinnerStart (''Installing '' @ name component @ ''...'')]\<rparr>)))
                   = files"
  proof (intro allI impI, elim conjE)
    fix err
    let ?w1 = "w\<lparr>fs := files,
        trace := trace w @ [SpinnerStart (''Installing '' @ name component @ ''...'')]\<rparr>"
    assume n: "\<not> (\<not> overwrite opts \<and> existsSync files (destination config compPath))"
      and r: "readFile e files (path_resolve (procCwd e) (entry_from compPath)) = Inl err
                \<or> (\<exists>content.
                      readFile e files (path_resolve (procCwd e) (entry_from compPath)) = Inr content
                      \<and> writeFile e files (destination config compPath)
                           (fixImports content (aliases_components config) (aliases_lib config))
                          = Inl err)"
    from r have "installEntry e component compPath config (w\<lparr>fs := files\<rparr>) = handled e err ?w1"
      by (auto simp: installEntry_def Let_def emit_def)
    then have "writeEntry e component compPath config opts w = handled e err ?w1"
      unfolding writeEntry_no_prompt[OF assms n] .
    moreover have "fs (snd (handled e err ?w1)) = files"
      by (simp add: handled_def emit_def split: option.splits)
    ultimately show "writeFiles e component (compPath # rest) config opts w
                 = (case handled e err ?w1 of
                      (Returned, w') \<Rightarrow> writeFiles e component rest config opts w'
                    | (out, w') \<Rightarrow> (out, w'))
               \<and> fs (snd (handled e err ?w1)) = files"
      by simp
  qed
qed




section \<open>Runs on the sample data\<close>

lemma sample_ensureDir:
  "ensureDir sample_env (fs (sample_world as)) (target_dir sample_config sample_entry)
     = Inr sample_files"
  unfolding sample_dest
  by (simp add: ensureDir_def existsSync_def sample_world_def sample_files_def)

lemma sample_exists:
  "existsSync sample_files (destination sample_config sample_entry)"
  unfolding sample_dest by (simp add: existsSync_def sample_files_def)

lemma sample_old:
  "sample_files (fst (destination sample_config sample_entry)) = Some (File ''old'')"
  unfolding sample_dest by (simp add: sample_files_def)

lemma sample_readFile:
  "readFile sample_env sample_files (path_resolve (procCwd sample_env) (entry_from sample_entry))
     = Inr ''import { X } from '../Icons';''"
  unfolding sample_dest by (simp add: readFile_def sample_env_def sample_files_def)

lemma sample_writeFile:
  "writeFile sample_env sample_files (destination sample_config sample_entry) data
     = Inr (sample_files(fst (destination sample_config sample_entry) \<mapsto> File data))"
  unfolding sample_dest by (simp add: writeFile_def sample_env_def sample_files_def)

lemma sample_aliases:
  "aliases_components sample_config = ''~/components''" "aliases_lib sample_config = ''~/lib''"
  "resolvedPaths_components sample_config = [''proj'', ''components'']"
  by (simp_all add: sample_config_def)

theorem writeFiles_skips_declined_file_witness:
  "\<not> overwrite \<lparr>components = None, overwrite = False\<rparr>
   \<and> ensureDir sample_env (fs (sample_world [False])) (target_dir sample_config sample_entry)
       = Inr sample_files
   \<and> existsSync (fs (sample_world [False])) (destination sample_config sample_entry)
   \<and> answers (sample_world [False]) = [False]
   \<and> writeFiles sample_env sample_dialog [sample_entry] sample_config
        \<lparr>components = None, overwrite = False\<rparr> (sample_world [False])
       = (Returned, \<lparr>fs = sample_files, answers = [],
            trace = [SpinnerStop, Prompt ''File ui/dialog.tsx already exists. Would you like to overwrite?'',
              LoggerInfo ''Skipped dialog. To overwrite, run with the --overwrite flag.'']\<rparr>)
   \<and> sample_files (fst (destination sample_config sample_entry)) = Some (File ''old'')"
proof -
  have h1: "\<not> overwrite \<lparr>components = None, overwrite = False\<rparr>" by simp
  have h3: "existsSync (fs (sample_world [False])) (destination sample_config sample_entry)"
    using sample_exists by (simp add: sample_world_def)
  have h4: "answers (sample_world [False]) = []
      \<or> (\<exists>later. answers (sample_world [False]) = False # later)"
    by (simp add: sample_world_def)
  from writeFiles_skips_declined_file[OF h1 sample_ensureDir h3 h4, of sample_dialog "[]"]
  have "writeFiles sample_env sample_dialog [sample_entry] sample_config
        \<lparr>components = None, overwrite = False\<rparr> (sample_world [False])
       = (Returned, \<lparr>fs = sample_files, answers = [],
            trace = [SpinnerStop, Prompt ''File ui/dialog.tsx already exists. Would you like to overwrite?'',
              LoggerInfo ''Skipped dialog. To overwrite, run with the --overwrite flag.'']\<rparr>)"
    by (simp add: sample_world_def overwrite_question_def skip_message_def sample_entry_def
        sample_dialog_def)
  with h1 h3 sample_ensureDir[of "[False]"] sample_old show ?thesis
    by (simp add: sample_world_def)
qed

lemma sample_forced_write:
  "writeFile sample_env sample_files (destination sample_config sample_entry)
       (fixImports ''import { X } from '../Icons';'' (aliases_components sample_config)
          (aliases_lib sample_config))
     = Inr (sample_files(fst (destination sample_config sample_entry) \<mapsto>
          File ''import { X } from '~/components/Icons';''))"
  by (simp add: sample_writeFile sample_aliases sample_fix)

theorem writeFiles_prompt_iff_witness:
  "ensureDir sample_env (fs (sample_world [])) (target_dir sample_config sample_entry)
       = Inr sample_files
   \<and> existsSync sample_files (destination sample_config sample_entry)
   \<and> overwrite \<lparr>components = None, overwrite = True\<rparr>
   \<and> readFile sample_env sample_files
        (path_resolve (procCwd sample_env) (entry_from sample_entry))
      = Inr ''import { X } from '../Icons';''
   \<and> writeFiles sample_env sample_dialog [sample_entry] sample_config
        \<lparr>components = None, overwrite = True\<rparr> (sample_world [])
       = (Returned, \<lparr>fs = sample_files(fst (destination sample_config sample_entry) \<mapsto>
              File ''import { X } from '~/components/Icons';''),
            answers = [], trace = [SpinnerStart ''Installing dialog...'']\<rparr>)"
proof -
  note t = writeFiles_prompt_iff[OF sample_ensureDir[of "[]"],
      of sample_dialog "[]" "\<lparr>components = None, overwrite = True\<rparr>"]
  have n: "\<not> (\<not> overwrite \<lparr>components = None, overwrite = True\<rparr>
       \<and> existsSync sample_files (destination sample_config sample_entry))"
    by simp
  note c3 = t[THEN conjunct2, THEN conjunct2, THEN conjunct1, rule_format,
      OF conjI[OF n conjI[OF sample_readFile sample_forced_write]]]
  from c3 have "writeFiles sample_env sample_dialog [sample_entry] sample_config
        \<lparr>components = None, overwrite = True\<rparr> (sample_world [])
       = (Returned, \<lparr>fs = sample_files(fst (destination sample_config sample_entry) \<mapsto>
              File ''import { X } from '~/components/Icons';''),
            answers = [], trace = [SpinnerStart ''Installing dialog...'']\<rparr>)"
    by (simp add: sample_world_def sample_dialog_def)
  then show ?thesis
    using sample_ensureDir[of "[]"] sample_exists sample_readFile by simp
qed

text \<open>
  Claim C5 as stated fails: a destination that does not exist is not written when the
  source cannot be read, forced overwrite or not; the error goes to \<^verbatim>\<open>handleError\<close>.
\<close>

theorem writeFiles_unreadable_source_counterexample:
  "\<not> existsSync (fs (sample_world [])) (destination sample_config missing_entry)
   \<and> writeFiles sample_env sample_dialog [missing_entry] sample_config
        \<lparr>components = None, overwrite = True\<rparr> (sample_world [])
       = (Exited 1, \<lparr>fs = sample_files, answers = [],
            trace = [SpinnerStart ''Installing dialog...'',
                     HandleError (IOError (ReadOp [''repo'', ''src'', ''missing.tsx'']))]\<rparr>)
   \<and> sample_files (fst (destination sample_config missing_entry)) = None"
proof -
  have "writeEntry sample_env sample_dialog missing_entry sample_config
        \<lparr>components = None, overwrite = True\<rparr> (sample_world [])
       = (Exited 1, \<lparr>fs = sample_files, answers = [],
            trace = [SpinnerStart ''Installing dialog...'',
                     HandleError (IOError (ReadOp [''repo'', ''src'', ''missing.tsx'']))]\<rparr>)"
    unfolding writeEntry_def installEntry_def sample_dest
    by (simp add: ensureDir_def existsSync_def readFile_def handled_def emit_def Let_def
        sample_env_def sample_files_def sample_world_def sample_dialog_def)
  then show ?thesis
    unfolding sample_dest
    by (simp add: existsSync_def sample_world_def sample_files_def)
qed

text \<open>A file name with a trailing separator: the existing regular file is not found, so
  no prompt is shown, and the write fails.\<close>

lemma trailing_separator_run:
  "writeFiles sample_env sample_dialog [slash_entry] sample_config
        \<lparr>components = None, overwrite = False\<rparr> (sample_world [True])
       = (Exited 1, \<lparr>fs = sample_files, answers = [True],
            trace = [SpinnerStart ''Installing dialog...'',
                     HandleError (IOError (WriteOp [''proj'', ''components'', ''ui'', ''dialog.tsx'']))]\<rparr>)"
proof -
  have "writeEntry sample_env sample_dialog slash_entry sample_config
        \<lparr>components = None, overwrite = False\<rparr> (sample_world [True])
       = (Exited 1, \<lparr>fs = sample_files, answers = [True],
            trace = [SpinnerStart ''Installing dialog...'',
                     HandleError (IOError (WriteOp [''proj'', ''components'', ''ui'', ''dialog.tsx'']))]\<rparr>)"
    unfolding writeEntry_def installEntry_def sample_dest
    by (simp add: ensureDir_def existsSync_def readFile_def writeFile_def handled_def emit_def
        Let_def sample_env_def sample_files_def sample_world_def sample_dialog_def)
  then show ?thesis by simp
qed

theorem add_rejects_unknown_components_witness:
  "components \<lparr>components = Some [''dialog'', ''nope'', ''icons'', ''bad''], overwrite = False\<rparr>
     = Some [''dialog'', ''nope'', ''icons'', ''bad'']
   \<and> list_ex (\<lambda>n. n \<notin> set (map name sample_catalog)) [''dialog'', ''nope'', ''icons'', ''bad'']
   \<and> (\<exists>w'. add_action sample_env sample_catalog (getAllComponentsToWrite sample_catalog) None
           sample_config
           \<lparr>components = Some [''dialog'', ''nope'', ''icons'', ''bad''], overwrite = False\<rparr>
           (sample_world []) = (Exited 1, w')
         \<and> last (trace w') = LoggerError ''Invalid component(s): nope, bad''
         \<and> fs w' = fs (sample_world []))"
proof -
  have h1: "components \<lparr>components = Some [''dialog'', ''nope'', ''icons'', ''bad''], overwrite = False\<rparr>
     = Some [''dialog'', ''nope'', ''icons'', ''bad'']
   \<or> ((components \<lparr>components = Some [''dialog'', ''nope'', ''icons'', ''bad''], overwrite = False\<rparr> = None
       \<or> components \<lparr>components = Some [''dialog'', ''nope'', ''icons'', ''bad''], overwrite = False\<rparr> = Some [])
      \<and> None = Some [''dialog'', ''nope'', ''icons'', ''bad''])"
    by simp
  have nm: "map name sample_catalog = [''icons'', ''dialog'']"
    by (simp add: sample_catalog_def sample_icons_def sample_dialog_def)
  have h2: "\<exists>n \<in> set [''dialog'', ''nope'', ''icons'', ''bad'']. n \<notin> set (map name sample_catalog)"
    unfolding nm by simp
  have f: "filter (\<lambda>n. n \<notin> set (map name sample_catalog)) [''dialog'', ''nope'', ''icons'', ''bad'']
     = [''nope'', ''bad'']"
    unfolding nm by simp
  from add_rejects_unknown_components[OF h1 h2, of sample_env sample_config "sample_world []"]
  obtain w' where "add_action sample_env sample_catalog (getAllComponentsToWrite sample_catalog) None
           sample_config
           \<lparr>components = Some [''dialog'', ''nope'', ''icons'', ''bad''], overwrite = False\<rparr>
           (sample_world []) = (Exited 1, w')"
     and "last (trace w') = LoggerError (''Invalid component(s): '' @ join '', ''
            (filter (\<lambda>n. n \<notin> set (map name sample_catalog)) [''dialog'', ''nope'', ''icons'', ''bad'']))"
     and "fs w' = fs (sample_world [])"
    by auto
  then have "\<exists>w'. add_action sample_env sample_catalog (getAllComponentsToWrite sample_catalog) None
           sample_config
           \<lparr>components = Some [''dialog'', ''nope'', ''icons'', ''bad''], overwrite = False\<rparr>
           (sample_world []) = (Exited 1, w')
         \<and> last (trace w') = LoggerError ''Invalid component(s): nope, bad''
         \<and> fs w' = fs (sample_world [])"
    unfolding f by auto
  moreover have "list_ex (\<lambda>n. n \<notin> set (map name sample_catalog)) [''dialog'', ''nope'', ''icons'', ''bad'']"
    unfolding nm by simp
  ultimately show ?thesis by simp
qed

theorem add_continues_after_other_error_witness:
  "components \<lparr>components = Some [''dialog''], overwrite = False\<rparr> = Some [''dialog'']
   \<and> add_action sample_env sample_catalog (\<lambda>requested. Inl (OtherError ''boom'')) None
        sample_config \<lparr>components = Some [''dialog''], overwrite = False\<rparr> (sample_world [])
      = (Returned, \<lparr>fs = sample_files, answers = [],
           trace = [SpinnerStart ''Installing components...'',
                    LoggerErrorValue (OtherError ''boom''), SpinnerSucceed ''Done.'']\<rparr>)
   \<and> exit_code Returned = Some 0"
proof -
  have h1: "components \<lparr>components = Some [''dialog''], overwrite = False\<rparr> = Some [''dialog'']
   \<or> ((components \<lparr>components = Some [''dialog''], overwrite = False\<rparr> = None
       \<or> components \<lparr>components = Some [''dialog''], overwrite = False\<rparr> = Some [])
      \<and> None = Some [''dialog''])"
    by simp
  have h2: "[''dialog''] \<noteq> []" by simp
  have h3: "(\<lambda>requested. Inl (OtherError ''boom'')) [''dialog'']
      = (Inl (OtherError ''boom'') :: error + Component list)" by simp
  have h4: "\<forall>names. OtherError ''boom'' \<noteq> UnknownComponentError names" by simp
  from add_continues_after_other_error[OF h1 h2 h3 h4,
      of sample_env sample_catalog sample_config "sample_world []"]
  show ?thesis by (simp add: sample_world_def)
qed



lemma sample_forced_run:
  "writeFiles sample_env sample_dialog [sample_entry] sample_config
     \<lparr>components = None, overwrite = True\<rparr> (sample_world [])
   = (Returned, \<lparr>fs = sample_files(fst (destination sample_config sample_entry) \<mapsto>
          File ''import { X } from '~/components/Icons';''),
        answers = [], trace = [SpinnerStart ''Installing dialog...'']\<rparr>)"
proof -
  have n: "\<not> (\<not> overwrite \<lparr>components = None, overwrite = True\<rparr>
       \<and> existsSync sample_files (destination sample_config sample_entry))"
    by simp
  from writeEntry_installs(1)[OF sample_ensureDir n sample_readFile sample_forced_write,
      of sample_dialog]
  show ?thesis by (simp add: sample_world_def sample_dialog_def)
qed

theorem writeFiles_stays_under_components_witness:
  "list_all (\<lambda>entry. no_parent_segment (to_folder entry) \<and> no_parent_segment (to_file entry))
     [sample_entry]
   \<and> fs (snd (writeFiles sample_env sample_dialog [sample_entry] sample_config
        \<lparr>components = None, overwrite = True\<rparr> (sample_world [])))
        (fst (destination sample_config sample_entry))
      \<noteq> fs (sample_world []) (fst (destination sample_config sample_entry))
   \<and> is_file (fs (snd (writeFiles sample_env sample_dialog [sample_entry] sample_config
        \<lparr>components = None, overwrite = True\<rparr> (sample_world []))))
        (fst (destination sample_config sample_entry))
   \<and> prefix (resolvedPaths_components sample_config) (fst (destination sample_config sample_entry))"
proof -
  have h1: "writeFiles sample_env sample_dialog [sample_entry] sample_config
        \<lparr>components = None, overwrite = True\<rparr> (sample_world [])
     = (fst (writeFiles sample_env sample_dialog [sample_entry] sample_config
        \<lparr>components = None, overwrite = True\<rparr> (sample_world [])),
        snd (writeFiles sample_env sample_dialog [sample_entry] sample_config
        \<lparr>components = None, overwrite = True\<rparr> (sample_world [])))"
    by simp
  have h2: "\<forall>entry \<in> set [sample_entry].
      no_parent_segment (to_folder entry) \<and> no_parent_segment (to_file entry)"
    by (simp add: no_parent_segment_def sample_entry_def)
  have old: "fs (sample_world []) (fst (destination sample_config sample_entry)) = Some (File ''old'')"
    using sample_old by (simp add: sample_world_def)
  have h3: "fs (snd (writeFiles sample_env sample_dialog [sample_entry] sample_config
        \<lparr>components = None, overwrite = True\<rparr> (sample_world [])))
        (fst (destination sample_config sample_entry))
      \<noteq> fs (sample_world []) (fst (destination sample_config sample_entry))"
    unfolding old sample_forced_run by simp
  from writeFiles_stays_under_components[OF h1 h2 h3] old
  have "is_file (fs (snd (writeFiles sample_env sample_dialog [sample_entry] sample_config
        \<lparr>components = None, overwrite = True\<rparr> (sample_world []))))
        (fst (destination sample_config sample_entry))
   \<and> prefix (resolvedPaths_components sample_config) (fst (destination sample_config sample_entry))"
    by simp
  with h2 h3 show ?thesis by simp
qed

end
